theory Spec2Isabelle
  imports Main "HOL-Library.Char_ord" "HOL-Library.List_Lexorder"
begin

section \<open>Strings of the Go standard library\<close>

text \<open>
  A Go string is modelled as a \<^typ>\<open>string\<close>: the list of its bytes, which hold text
  in UTF-8. \<open>space_runes\<close> lists the UTF-8 encodings of the characters for which
  \<open>unicode.IsSpace\<close> holds, the characters with Unicode's White_Space property: U+0009 to
  U+000D, U+0020, U+0085, U+00A0, U+1680, U+2000 to U+200A, U+2028, U+2029, U+202F, U+205F
  and U+3000.
\<close>

definition space_runes :: "string list" where
  "space_runes =
     [[CHR 0x09], [CHR 0x0A], [CHR 0x0B], [CHR 0x0C], [CHR 0x0D], [CHR 0x20],
      [CHR 0xC2, CHR 0x85], [CHR 0xC2, CHR 0xA0], [CHR 0xE1, CHR 0x9A, CHR 0x80],
      [CHR 0xE2, CHR 0x80, CHR 0x80], [CHR 0xE2, CHR 0x80, CHR 0x81],
      [CHR 0xE2, CHR 0x80, CHR 0x82], [CHR 0xE2, CHR 0x80, CHR 0x83],
      [CHR 0xE2, CHR 0x80, CHR 0x84], [CHR 0xE2, CHR 0x80, CHR 0x85],
      [CHR 0xE2, CHR 0x80, CHR 0x86], [CHR 0xE2, CHR 0x80, CHR 0x87],
      [CHR 0xE2, CHR 0x80, CHR 0x88], [CHR 0xE2, CHR 0x80, CHR 0x89],
      [CHR 0xE2, CHR 0x80, CHR 0x8A], [CHR 0xE2, CHR 0x80, CHR 0xA8],
      [CHR 0xE2, CHR 0x80, CHR 0xA9], [CHR 0xE2, CHR 0x80, CHR 0xAF],
      [CHR 0xE2, CHR 0x81, CHR 0x9F], [CHR 0xE3, CHR 0x80, CHR 0x80]]"

definition leading :: "string list \<Rightarrow> string \<Rightarrow> string option" where
  "leading runes s = find (\<lambda>q. q \<noteq> [] \<and> take (length q) s = q) runes"

lemma leading_Some:
  "leading runes s = Some q \<Longrightarrow> q \<in> set runes \<and> q \<noteq> [] \<and> take (length q) s = q"
  unfolding leading_def by (induction runes) (auto split: if_splits)

lemma leading_shorter: "leading runes s = Some q \<Longrightarrow> length s - length q < length s"
proof -
  assume "leading runes s = Some q"
  then have "q \<noteq> []" and "take (length q) s = q" using leading_Some by blast+
  then have "s \<noteq> []" by auto
  then show ?thesis using \<open>q \<noteq> []\<close> by (cases s; cases q) auto
qed

function strip :: "string list \<Rightarrow> string \<Rightarrow> string" where
  "strip runes s =
     (case leading runes s of
        None \<Rightarrow> s
      | Some q \<Rightarrow> strip runes (drop (length q) s))"
  by pat_completeness auto
termination
  by (relation "measure (\<lambda>(runes, s). length s)") (simp_all add: leading_shorter)

text \<open>
  \<open>strings.TrimSpace\<close>: the white space characters at the start are dropped, then those
  at the end (\<open>strip\<close> on the reversed string, with the reversed encodings).
\<close>

definition TrimSpace :: "string \<Rightarrow> string" where
  "TrimSpace s = rev (strip (map rev space_runes) (rev (strip space_runes s)))"

text \<open>
  \<open>strings.ToLower\<close>. On a string of ASCII bytes it maps \<open>A\<close> to \<open>Z\<close> onto \<open>a\<close> to
  \<open>z\<close>. On a string with a byte above 127 it returns \<open>strings.Map(unicode.ToLower, s)\<close>,
  which rests on the case tables of package \<open>unicode\<close>: that function is the parameter
  \<open>unicode\<close>.
\<close>

definition is_ascii :: "char \<Rightarrow> bool" where
  "is_ascii c = ((of_char c :: nat) < 128)"

definition toLowerChar :: "char \<Rightarrow> char" where
  "toLowerChar c =
     (case map_of (zip ''ABCDEFGHIJKLMNOPQRSTUVWXYZ'' ''abcdefghijklmnopqrstuvwxyz'') c of
        None \<Rightarrow> c
      | Some l \<Rightarrow> l)"

definition ToLower :: "(string \<Rightarrow> string) \<Rightarrow> string \<Rightarrow> string" where
  "ToLower unicode s = (if list_all is_ascii s then map toLowerChar s else unicode s)"

text \<open>\<open>strings.ReplaceAll(s, " ", "-")\<close>: the pattern is the single byte U+0020.\<close>

definition ReplaceSpaces :: "string \<Rightarrow> string" where
  "ReplaceSpaces s = map (\<lambda>c. if c = CHR '' '' then CHR ''-'' else c) s"

definition HasPrefix :: "string \<Rightarrow> string \<Rightarrow> bool" where
  "HasPrefix s p = (take (length p) s = p)"

text \<open>\<open>strconv.Itoa\<close> and the verb \<open>%d\<close>.\<close>

fun string_of_nat :: "nat \<Rightarrow> string" where
  "string_of_nat n =
     (if n < 10 then [char_of (48 + n)]
      else string_of_nat (n div 10) @ [char_of (48 + n mod 10)])"

definition Itoa :: "int \<Rightarrow> string" where
  "Itoa i = (if i < 0 then ''-'' @ string_of_nat (nat (- i)) else string_of_nat (nat i))"

text \<open>
  The verb \<open>%q\<close> (\<open>strconv.Quote\<close>): the text between double quotes, with the
  quote and the backslash escaped. Control characters, which Go writes as escapes too,
  are left as they are.
\<close>

definition quote_char :: "char \<Rightarrow> string" where
  "quote_char c =
     (if c = CHR 0x22 then [CHR 0x5C, CHR 0x22]
      else if c = CHR 0x5C then [CHR 0x5C, CHR 0x5C]
      else [c])"

definition quote :: "string \<Rightarrow> string" where
  "quote s = [CHR 0x22] @ concat (map quote_char s) @ [CHR 0x22]"

section \<open>Naming\<close>

type_synonym uuid = string

definition DockerServiceName :: "string \<Rightarrow> string \<Rightarrow> string" where
  "DockerServiceName jobID serviceKey = jobID @ ''-'' @ TrimSpace serviceKey"

definition DockerNetworkName :: "string \<Rightarrow> string \<Rightarrow> string" where
  "DockerNetworkName jobID name = jobID @ ''-'' @ name"

definition DockerNetworkResourceName :: "string \<Rightarrow> string \<Rightarrow> string" where
  "DockerNetworkResourceName jobID name = jobID @ ''-'' @ name @ ''-resource''"

definition DockerRunnerVolumeName :: "string \<Rightarrow> string" where
  "DockerRunnerVolumeName jobID = jobID @ ''-runner''"

text \<open>
  \<open>DockerVolumeName\<close> and its local function \<open>safe\<close>. The first argument is the
  parameter of \<open>ToLower\<close>; the other two are the arguments of the Go function.
\<close>

definition safe :: "(string \<Rightarrow> string) \<Rightarrow> string \<Rightarrow> string" where
  "safe unicode s = ReplaceSpaces (ToLower unicode (TrimSpace s))"

definition DockerVolumeName :: "(string \<Rightarrow> string) \<Rightarrow> string \<Rightarrow> string \<Rightarrow> string" where
  "DockerVolumeName unicode jobID volumeName =
     ''dc-'' @ safe unicode jobID @ ''-'' @ safe unicode volumeName"

text \<open>
  The named volume as the specification words it: trimmed, lowercased, and every
  white space character replaced by a dash (\<open>dash_spaces\<close>).
\<close>

function dash_spaces :: "string \<Rightarrow> string" where
  "dash_spaces s =
     (if s = [] then []
      else (case leading space_runes s of
              None \<Rightarrow> hd s # dash_spaces (tl s)
            | Some q \<Rightarrow> CHR ''-'' # dash_spaces (drop (length q) s)))"
  by pat_completeness auto
termination
  by (relation "measure length") (simp_all add: leading_shorter)

declare strip.simps [simp del] dash_spaces.simps [simp del]

definition spec_dashed :: "(string \<Rightarrow> string) \<Rightarrow> string \<Rightarrow> string" where
  "spec_dashed unicode s = dash_spaces (ToLower unicode (TrimSpace s))"

definition spec_NamedVolume :: "(string \<Rightarrow> string) \<Rightarrow> string \<Rightarrow> string \<Rightarrow> string" where
  "spec_NamedVolume unicode job volume =
     ''dc-'' @ spec_dashed unicode job @ ''-'' @ spec_dashed unicode volume"

text \<open>
  \<open>only_plain_spaces s\<close>: every white space character in \<open>s\<close> is the space U+0020.
\<close>

definition only_plain_spaces :: "string \<Rightarrow> bool" where
  "only_plain_spaces s =
     list_all (\<lambda>i. case leading space_runes (drop i s) of None \<Rightarrow> True | Some q \<Rightarrow> q = '' '')
       [0..<length s]"

section \<open>Data model\<close>

type_synonym raw_json = string

record BindingSpec =
  bs_ContainerPort :: "int option"
  bs_HostPort :: "int option"
  bs_HostIP :: "string option"
  bs_ContainerIP :: "string option"

record ResourceConnection =
  rc_Type :: string
  rc_Data :: raw_json

record PublicConnection =
  pc_Address :: "string option"
  pc_Port :: "nat option"

record CreateResourceSpec =
  crs_ResourceType :: string
  crs_Name :: string
  crs_PublicConnection :: "PublicConnection option"
  crs_Metadata :: raw_json

record CreateResource =
  cr_ResourceType :: string
  cr_Name :: string
  cr_PlatformConnection :: "raw_json option"
  cr_PublicConnection :: "PublicConnection option"
  cr_Metadata :: raw_json

record VolumeMount =
  vm_Name :: "string option"
  vm_MountPath :: string

record ScaleSpec =
  sc_Mode :: string
  sc_Min :: "int option"
  sc_Max :: "int option"

text \<open>
  \<open>MetadataService\<close>. \<open>svc_NetworkGroups\<close> is the field \<open>NetworkGroups\<close> that
  \<open>SetupService\<close> reads. \<open>svc_Environment\<close> is a Go map; it is held as the list of
  its entries.
\<close>

record MetadataService =
  svc_Image :: string
  svc_Aliases :: "string list option"
  svc_Role :: "string option"
  svc_DependsOn :: "string list option"
  svc_Bindings :: "BindingSpec list option"
  svc_Connections :: "ResourceConnection list option"
  svc_Resources :: "CreateResourceSpec list option"
  svc_Environment :: "(string \<times> string) list"
  svc_Volumes :: "VolumeMount list option"
  svc_Scale :: "ScaleSpec option"
  svc_NetworkGroups :: "string list option"

record ResourceRef =
  ref_ID :: "uuid option"
  ref_Service :: "string option"
  ref_Name :: "string option"

record CreateConnectionSpec =
  ccs_Job :: uuid
  ccs_Resource :: ResourceRef
  ccs_Metadata :: raw_json

record RemoveConnectionSpec =
  rcs_ID :: "uuid option"
  rcs_Resource :: "ResourceRef option"

record ConnectionPlan =
  plan_Create :: "CreateConnectionSpec list option"
  plan_Remove :: "RemoveConnectionSpec list option"

text \<open>
  The Go map \<open>Services\<close> is held as the list of its entries, in the order in which
  \<open>range\<close> yields them; \<open>services[k]\<close> is \<^term>\<open>map_of services k\<close>. A nil map
  and an empty one are both the empty list (the code treats them alike).
\<close>

type_synonym services = "(string \<times> MetadataService) list"

record Metadata =
  md_Services :: services
  md_RemoveServices :: "string list option"
  md_Volumes :: "string list option"
  md_RemoveVolumes :: "string list option"
  md_Connections :: "ConnectionPlan option"

record Configuration =
  cfg_Job :: uuid
  cfg_Run :: uuid
  cfg_Runner :: string
  cfg_Platform :: string
  cfg_PlatformData :: "raw_json option"
  cfg_Action :: string
  cfg_Metadata :: "Metadata option"

text \<open>The zero value \<open>MetadataService{}\<close>, which \<open>services[k]\<close> gives for a missing key.\<close>

definition zero_service :: MetadataService where
  "zero_service = \<lparr>svc_Image = [], svc_Aliases = None, svc_Role = None, svc_DependsOn = None,
     svc_Bindings = None, svc_Connections = None, svc_Resources = None, svc_Environment = [],
     svc_Volumes = None, svc_Scale = None, svc_NetworkGroups = None\<rparr>"

type_synonym error = string

section \<open>Manifest validation\<close>

definition ServiceRoleRunner :: string where
  "ServiceRoleRunner = ''runner''"

definition ResourceConnectionTypePlatform :: string where
  "ResourceConnectionTypePlatform = ''Platform''"

definition IsRunnerRole :: "MetadataService \<Rightarrow> bool" where
  "IsRunnerRole service = (case svc_Role service of None \<Rightarrow> False | Some r \<Rightarrow> r = ServiceRoleRunner)"

definition GetPlatformData :: "ResourceConnection \<Rightarrow> raw_json option" where
  "GetPlatformData connection =
     (if rc_Type connection \<noteq> ResourceConnectionTypePlatform then None
      else Some (rc_Data connection))"

definition lookup_service :: "services \<Rightarrow> string \<Rightarrow> MetadataService" where
  "lookup_service services k = (case map_of services k of None \<Rightarrow> zero_service | Some svc \<Rightarrow> svc)"

definition depends_on :: "MetadataService \<Rightarrow> string list" where
  "depends_on svc = (case svc_DependsOn svc of None \<Rightarrow> [] | Some ds \<Rightarrow> ds)"

text \<open>\<open>CheckDependsOnServicesExist\<close>: the keys are sorted first.\<close>

fun first_missing_dep :: "services \<Rightarrow> string \<Rightarrow> string list \<Rightarrow> error option" where
  "first_missing_dep services svcKey [] = None"
| "first_missing_dep services svcKey (depKey # rest) =
     (if map_of services depKey = None
      then Some (''service '' @ quote svcKey @ '' depends_on '' @ quote depKey @ '', but ''
                 @ quote depKey @ '' does not exist'')
      else first_missing_dep services svcKey rest)"

fun check_depends_keys :: "services \<Rightarrow> string list \<Rightarrow> error option" where
  "check_depends_keys services [] = None"
| "check_depends_keys services (svcKey # keys) =
     (case first_missing_dep services svcKey (depends_on (lookup_service services svcKey)) of
        Some e \<Rightarrow> Some e
      | None \<Rightarrow> check_depends_keys services keys)"

definition CheckDependsOnServicesExist :: "services \<Rightarrow> error option" where
  "CheckDependsOnServicesExist services = check_depends_keys services (sort (map fst services))"

text \<open>\<open>reconstructCycle\<close>: the walk along the parent pointers, then the formatting.\<close>

function walk_parents :: "(string \<times> string) list \<Rightarrow> string list \<Rightarrow> string list \<Rightarrow> string \<Rightarrow> string list" where
  "walk_parents parent seen path cur =
     (case map_of parent cur of
        None \<Rightarrow> path
      | Some p \<Rightarrow>
          if p \<in> set seen then path @ [p]
          else walk_parents parent (p # seen) (path @ [p]) p)"
  by pat_completeness auto
termination
proof (relation "measure (\<lambda>(parent, seen, path, cur). card (snd ` set parent - set seen))")
  show "wf (measure (\<lambda>(parent, seen, path, cur). card (snd ` set parent - set seen)))"
    by simp
next
  fix parent :: "(string \<times> string) list" and seen path :: "string list" and cur p :: string
  assume a: "map_of parent cur = Some p" "p \<notin> set seen"
  have "p \<in> snd ` set parent" using a(1) by (force dest: map_of_SomeD)
  then have "snd ` set parent - set (p # seen) \<subset> snd ` set parent - set seen"
    using a(2) by auto
  then have "card (snd ` set parent - set (p # seen)) < card (snd ` set parent - set seen)"
    by (intro psubset_card_mono) auto
  then show "((parent, p # seen, path @ [p], p), (parent, seen, path, cur))
      \<in> measure (\<lambda>(parent, seen, path, cur). card (snd ` set parent - set seen))"
    by simp
qed

fun join_arrow :: "string list \<Rightarrow> string" where
  "join_arrow [] = []"
| "join_arrow [s] = quote s"
| "join_arrow (s # t # rest) = quote s @ '' -> '' @ join_arrow (t # rest)"

definition reconstructCycle :: "(string \<times> string) list \<Rightarrow> string \<Rightarrow> string" where
  "reconstructCycle parent start =
     (let path = rev (walk_parents parent [start] [start] start);
          path = (if path \<noteq> [] \<and> last path \<noteq> hd path then path @ [hd path] else path)
      in join_arrow path)"

text \<open>\<open>CheckCircularDependencies\<close>: the depth-first search with three colours.\<close>

datatype colour = Unvisited | Visiting | Visited

record dfs_state =
  state :: "string \<Rightarrow> colour"
  parent :: "(string \<times> string) list"

definition unvisited_keys :: "services \<Rightarrow> dfs_state \<Rightarrow> string set" where
  "unvisited_keys services ds = {k \<in> set (map fst services). state ds k = Unvisited}"

function dfs :: "services \<Rightarrow> string \<Rightarrow> dfs_state \<Rightarrow> error + dfs_state"
  and dfs_deps :: "services \<Rightarrow> string \<Rightarrow> string list \<Rightarrow> dfs_state \<Rightarrow> error + dfs_state"
where
  "dfs services node ds =
     (case state ds node of
        Visiting \<Rightarrow> Inl (''circular dependency detected: '' @ reconstructCycle (parent ds) node)
      | Visited \<Rightarrow> Inr ds
      | Unvisited \<Rightarrow>
          (case dfs_deps services node (depends_on (lookup_service services node))
                  (ds\<lparr>state := (state ds)(node := Visiting)\<rparr>) of
             Inl e \<Rightarrow> Inl e
           | Inr ds' \<Rightarrow> Inr (ds'\<lparr>state := (state ds')(node := Visited)\<rparr>)))"
| "dfs_deps services node [] ds = Inr ds"
| "dfs_deps services node (dep # rest) ds =
     (if map_of services dep = None then dfs_deps services node rest ds
      else
        (case dfs services dep
                (if map_of (parent ds) dep = None
                 then ds\<lparr>parent := parent ds @ [(dep, node)]\<rparr> else ds) of
           Inl e \<Rightarrow> Inl e
         | Inr ds' \<Rightarrow> dfs_deps services node rest ds'))"
  by pat_completeness auto

lemma dfs_unvisited_mono:
  "dfs_dfs_deps_dom (Inl (services, node, ds)) \<Longrightarrow> dfs services node ds = Inr r
     \<Longrightarrow> unvisited_keys services r \<subseteq> unvisited_keys services ds"
  "dfs_dfs_deps_dom (Inr (services, node, deps, ds)) \<Longrightarrow> dfs_deps services node deps ds = Inr r
     \<Longrightarrow> unvisited_keys services r \<subseteq> unvisited_keys services ds"
proof (induction services node ds and services node deps ds arbitrary: r and r rule: dfs_dfs_deps.pinduct)
  case (1 services node ds)
  show ?case
  proof (cases "state ds node")
    case Unvisited
    then obtain ds' where d: "dfs_deps services node (depends_on (lookup_service services node))
        (ds\<lparr>state := (state ds)(node := Visiting)\<rparr>) = Inr ds'"
      and r: "r = ds'\<lparr>state := (state ds')(node := Visited)\<rparr>"
      using "1.prems" "1.hyps" by (auto simp: dfs.psimps split: sum.splits)
    have "unvisited_keys services ds' \<subseteq> unvisited_keys services (ds\<lparr>state := (state ds)(node := Visiting)\<rparr>)"
      using "1.IH" [OF Unvisited d] .
    then show ?thesis using r by (auto simp: unvisited_keys_def split: if_splits)
  next
    case Visiting
    then show ?thesis using "1.prems" "1.hyps" by (simp add: dfs.psimps)
  next
    case Visited
    then show ?thesis using "1.prems" "1.hyps" by (simp add: dfs.psimps)
  qed
next
  case (2 services node ds)
  then show ?case by (simp add: dfs_deps.psimps)
next
  case (3 services node dep rest ds)
  show ?case
  proof (cases "map_of services dep = None")
    case True
    then show ?thesis using "3.prems" "3.hyps" "3.IH"(1) by (simp add: dfs_deps.psimps)
  next
    case False
    let ?ds1 = "if map_of (parent ds) dep = None then ds\<lparr>parent := parent ds @ [(dep, node)]\<rparr> else ds"
    obtain ds' where d: "dfs services dep ?ds1 = Inr ds'" and r: "dfs_deps services node rest ds' = Inr r"
      using "3.prems" "3.hyps" False by (auto simp: dfs_deps.psimps split: sum.splits)
    have "unvisited_keys services ds' \<subseteq> unvisited_keys services ?ds1"
      using "3.IH"(2) [OF False d] .
    moreover have "unvisited_keys services r \<subseteq> unvisited_keys services ds'"
      using "3.IH"(3) [OF False d r] .
    moreover have "unvisited_keys services ?ds1 = unvisited_keys services ds"
      by (simp add: unvisited_keys_def)
    ultimately show ?thesis by blast
  qed
qed

termination dfs
proof (relation "inv_image (less_than <*lex*> less_than)
    (\<lambda>x. case x of
       Inl (services, node, ds) \<Rightarrow> (card (unvisited_keys services ds), 1)
     | Inr (services, node, deps, ds) \<Rightarrow> (card (unvisited_keys services ds), 2 * length deps))",
    goal_cases)
  case 1
  show ?case by (intro wf_inv_image wf_lex_prod wf_less_than)
next
  case (2 services node ds)
  have fin: "finite (unvisited_keys services ds)" by (simp add: unvisited_keys_def)
  show ?case
  proof (cases "node \<in> set (map fst services)")
    case True
    have "unvisited_keys services (ds\<lparr>state := (state ds)(node := Visiting)\<rparr>) \<subset> unvisited_keys services ds"
      using True 2 by (auto simp: unvisited_keys_def)
    then have "card (unvisited_keys services (ds\<lparr>state := (state ds)(node := Visiting)\<rparr>)) < card (unvisited_keys services ds)"
      using fin by (intro psubset_card_mono)
    then show ?thesis by simp
  next
    case False
    then have "map_of services node = None" by (simp add: map_of_eq_None_iff)
    then have "depends_on (lookup_service services node) = []"
      by (simp add: lookup_service_def depends_on_def zero_service_def)
    moreover have "unvisited_keys services (ds\<lparr>state := (state ds)(node := Visiting)\<rparr>) = unvisited_keys services ds"
      using False by (auto simp: unvisited_keys_def)
    ultimately show ?thesis by simp
  qed
next
  case (3 services node dep rest ds)
  then show ?case by simp
next
  case (4 services node dep rest ds)
  then show ?case by (simp add: unvisited_keys_def)
next
  case (5 services node dep rest ds r)
  have "unvisited_keys services r \<subseteq> unvisited_keys services
      (if map_of (parent ds) dep = None then ds\<lparr>parent := parent ds @ [(dep, node)]\<rparr> else ds)"
    using dfs_unvisited_mono(1) 5 by blast
  moreover have "unvisited_keys services
      (if map_of (parent ds) dep = None then ds\<lparr>parent := parent ds @ [(dep, node)]\<rparr> else ds)
      = unvisited_keys services ds"
    by (simp add: unvisited_keys_def)
  ultimately have "unvisited_keys services r \<subseteq> unvisited_keys services ds"
    by simp
  moreover have "finite (unvisited_keys services ds)"
    by (simp add: unvisited_keys_def)
  ultimately have "card (unvisited_keys services r) \<le> card (unvisited_keys services ds)"
    by (simp add: card_mono)
  then show ?case by auto
qed


fun check_roots :: "services \<Rightarrow> string list \<Rightarrow> dfs_state \<Rightarrow> error option" where
  "check_roots services [] ds = None"
| "check_roots services (node # nodes) ds =
     (if state ds node = Unvisited
      then (case dfs services node ds of
              Inl e \<Rightarrow> Some e
            | Inr ds' \<Rightarrow> check_roots services nodes ds')
      else check_roots services nodes ds)"

definition CheckCircularDependencies :: "services \<Rightarrow> error option" where
  "CheckCircularDependencies services =
     check_roots services (map fst services) \<lparr>state = (\<lambda>_. Unvisited), parent = []\<rparr>"

text \<open>\<open>DeclaredVolumeSet\<close>.\<close>

fun declare_volumes :: "string list \<Rightarrow> string set \<Rightarrow> error + string set" where
  "declare_volumes [] declared = Inr declared"
| "declare_volumes (v # vs) declared =
     (let name = TrimSpace v in
      if name = [] then Inl ''metadata.volumes contains an empty name''
      else if name \<in> declared
      then Inl (''metadata.volumes contains duplicate volume '' @ quote name)
      else declare_volumes vs (insert name declared))"

definition DeclaredVolumeSet :: "string list option \<Rightarrow> error + string set" where
  "DeclaredVolumeSet vols = (case vols of None \<Rightarrow> Inr {} | Some vs \<Rightarrow> declare_volumes vs {})"

text \<open>
  \<open>CheckServiceVolumeMounts\<close>. The set of stragglers is iterated later, so it is held
  as the list of its members.
\<close>

definition add_name :: "string \<Rightarrow> string list \<Rightarrow> string list" where
  "add_name n names = (if n \<in> set names then names else names @ [n])"

fun check_mounts :: "string \<Rightarrow> string set \<Rightarrow> VolumeMount list \<Rightarrow> string set \<Rightarrow> string list
    \<Rightarrow> error + string list" where
  "check_mounts svcKey declared [] seenMountPath stragglers = Inr stragglers"
| "check_mounts svcKey declared (m # ms) seenMountPath stragglers =
     (let mountPath = TrimSpace (vm_MountPath m) in
      if mountPath = []
      then Inl (''service '' @ quote svcKey @ '' has a volume with empty mount_path'')
      else if \<not> HasPrefix mountPath ''/''
      then Inl (''service '' @ quote svcKey @ '' volume mount_path '' @ quote mountPath
                @ '' must be absolute'')
      else if mountPath \<in> seenMountPath
      then Inl (''service '' @ quote svcKey @ '' has duplicate volume mount_path ''
                @ quote mountPath)
      else
        (case vm_Name m of
           None \<Rightarrow> check_mounts svcKey declared ms (insert mountPath seenMountPath) stragglers
         | Some n \<Rightarrow>
             (let name = TrimSpace n in
              if name = []
              then Inl (''service '' @ quote svcKey @ '' has a volume with empty name'')
              else check_mounts svcKey declared ms (insert mountPath seenMountPath)
                     (if name \<notin> declared then add_name name stragglers else stragglers))))"

fun CheckServiceVolumeMounts :: "services \<Rightarrow> string set \<Rightarrow> string list \<Rightarrow> error + string list" where
  "CheckServiceVolumeMounts [] declared stragglers = Inr stragglers"
| "CheckServiceVolumeMounts ((svcKey, svc) # rest) declared stragglers =
     (case svc_Volumes svc of
        None \<Rightarrow> CheckServiceVolumeMounts rest declared stragglers
      | Some vols \<Rightarrow>
          if vols = [] then CheckServiceVolumeMounts rest declared stragglers
          else
            (case check_mounts svcKey declared vols {} stragglers of
               Inl e \<Rightarrow> Inl e
             | Inr stragglers' \<Rightarrow> CheckServiceVolumeMounts rest declared stragglers'))"

section \<open>The container engine and the agent\<close>

text \<open>
  Every call on the Docker client and on the agent is an event of the run's history.
  The answers come from the environment: an oracle reads the history up to and
  including the call it answers, so an answer may depend on everything done before.
  \<open>SetupServiceCall\<close> and \<open>SetupServiceReturn\<close> mark where \<open>ServiceSetup\<close> enters
  \<open>SetupService\<close> for a service and where that call has returned without error.
\<close>

datatype engine_error = EngineError (IsNotFound: bool) (error_text: string)

record container_config =
  cc_Name :: string
  cc_Image :: string
  cc_Env :: "string list"
  cc_Labels :: "(string \<times> string) list"
  cc_ExposedPorts :: "(nat \<times> string) list"
  cc_Mounts :: "(string \<times> string) list"
  cc_PortBindings :: "((nat \<times> string) \<times> (string \<times> string) list) list"
  cc_RestartPolicy :: string
  cc_Networks :: "string set"
  cc_Aliases :: "string list"

datatype event =
    VolumeInspect string
  | VolumeCreate string "(string \<times> string) list"
  | VolumeRemove string
  | VolumeList string
  | NetworkInspect string
  | NetworkCreate string "(string \<times> string) list"
  | NetworkRemove string
  | NetworkList string
  | ContainerInspect string
  | ContainerStop string
  | ContainerRemove string
  | ContainerCreate container_config
  | ContainerStart string
  | ContainerLogs string
  | DemuxDockerLogs string
  | ContainerWait string
  | ContainerList string
  | AgentCreateResource CreateResource
  | AgentDeleteResourceByName string
  | AgentCreateConnection uuid uuid raw_json
  | AgentDeleteConnection uuid uuid
  | SetupServiceCall string
  | SetupServiceReturn string

type_synonym history = "event list"

record inspected_container =
  ic_ID :: string
  ic_ResourcesLabel :: "string option"

datatype wait_result = WaitError "string option" | WaitStatus int

text \<open>
  The environment. \<open>answer\<close> serves the calls that give back an error or nothing,
  the other engine oracles the calls that give back data. \<open>comm_present\<close> says that
  \<open>p.comm\<close> is not nil, and \<open>agent_answer\<close> is the agent. \<open>Unmarshal_platform\<close>,
  \<open>Unmarshal_names\<close> and \<open>ParseAddr\<close> are \<open>json.Unmarshal\<close> into a
  \<open>DockerPlatformConnection\<close> (giving its \<open>Network\<close>) and into a \<open>[]string\<close>, and
  \<open>netip.ParseAddr\<close>. \<open>range_services\<close> is the order in which \<open>range\<close> yields the
  entries of the map of services still to run.
\<close>

record env =
  answer :: "history \<Rightarrow> engine_error option"
  inspected :: "history \<Rightarrow> engine_error + inspected_container"
  created :: "history \<Rightarrow> engine_error + string"
  waited :: "history \<Rightarrow> wait_result"
  demuxed :: "history \<Rightarrow> error option"
  listed_containers :: "history \<Rightarrow> engine_error + string list"
  listed_volumes :: "history \<Rightarrow> engine_error + string list"
  listed_networks :: "history \<Rightarrow> engine_error + (string \<times> string) list"
  comm_present :: bool
  agent_answer :: "history \<Rightarrow> error option"
  Unmarshal_platform :: "raw_json \<Rightarrow> error + string"
  Unmarshal_names :: "string \<Rightarrow> string list option"
  ParseAddr :: "string \<Rightarrow> error option"
  range_services :: "history \<Rightarrow> services \<Rightarrow> services"
  unicode_ToLower :: "string \<Rightarrow> string"

text \<open>\<open>json.Marshal\<close> of a string, of a \<open>[]string\<close> and of a \<open>DockerPlatformConnection\<close>.\<close>

definition json_string :: "string \<Rightarrow> string" where
  "json_string s = quote s"

fun json_items :: "string list \<Rightarrow> string" where
  "json_items [] = []"
| "json_items [s] = json_string s"
| "json_items (s # t # rest) = json_string s @ '','' @ json_items (t # rest)"

definition Marshal_names :: "string list \<Rightarrow> string" where
  "Marshal_names names = ''['' @ json_items names @ '']''"

definition Marshal_platform :: "string \<Rightarrow> raw_json" where
  "Marshal_platform network = ''{'' @ json_string ''network'' @ '':'' @ json_string network @ ''}''"

section \<open>Validation against the engine\<close>

fun checkExistingDockerVolumes :: "env \<Rightarrow> string \<Rightarrow> string list \<Rightarrow> history \<Rightarrow> error option \<times> history" where
  "checkExistingDockerVolumes E jobID [] h = (None, h)"
| "checkExistingDockerVolumes E jobID (logicalName # rest) h =
     (let h1 = h @ [VolumeInspect (DockerVolumeName (unicode_ToLower E) jobID logicalName)] in
      case answer E h1 of
        Some err \<Rightarrow> (Some (error_text err), h1)
      | None \<Rightarrow> checkExistingDockerVolumes E jobID rest h1)"

definition CheckVolumes :: "env \<Rightarrow> string \<Rightarrow> services \<Rightarrow> string list option \<Rightarrow> history
    \<Rightarrow> error option \<times> history" where
  "CheckVolumes E job services volumes h =
     (case DeclaredVolumeSet volumes of
        Inl err \<Rightarrow> (Some err, h)
      | Inr declared \<Rightarrow>
          (case CheckServiceVolumeMounts services declared [] of
             Inl err \<Rightarrow> (Some err, h)
           | Inr stragglers \<Rightarrow>
               if stragglers \<noteq> [] then checkExistingDockerVolumes E job stragglers h
               else (None, h)))"

definition CheckMetadata :: "env \<Rightarrow> uuid \<Rightarrow> Metadata option \<Rightarrow> history \<Rightarrow> error option \<times> history" where
  "CheckMetadata E job metadata h =
     (case metadata of
        None \<Rightarrow> (None, h)
      | Some md \<Rightarrow>
          if md_Services md \<noteq> [] then
            (case CheckDependsOnServicesExist (md_Services md) of
               Some err \<Rightarrow> (Some err, h)
             | None \<Rightarrow>
                 (case CheckCircularDependencies (md_Services md) of
                    Some err \<Rightarrow> (Some err, h)
                  | None \<Rightarrow> CheckVolumes E job (md_Services md) (md_Volumes md) h))
          else (None, h))"

section \<open>Reconciling one service\<close>

text \<open>
  The local variables of \<open>SetupService\<close>. The function is a sequence of phases; each
  phase either fails, which ends the call, or hands the variables on.
\<close>

record setup_state =
  ss_createdNetworks :: "string set"
  ss_networks :: "string set"
  ss_resources :: "CreateResource list"
  ss_resourceNames :: "string list"
  ss_mounts :: "(string \<times> string) list"
  ss_exposed :: "(nat \<times> string) list"
  ss_portMap :: "((nat \<times> string) \<times> (string \<times> string) list) list"
  ss_containerID :: string
  ss_history :: history

type_synonym phase = "setup_state \<Rightarrow> error option \<times> setup_state"

fun run_phases :: "phase list \<Rightarrow> phase" where
  "run_phases [] s = (None, s)"
| "run_phases (p # ps) s =
     (case p s of
        (Some err, s') \<Rightarrow> (Some err, s')
      | (None, s') \<Rightarrow> run_phases ps s')"

text \<open>
  Inspect, create, inspect again: the code writes this out for the group networks, the
  resource networks and the job network. The result is the error of the create call.
\<close>

definition ensure_network :: "env \<Rightarrow> string \<Rightarrow> (string \<times> string) list \<Rightarrow> setup_state
    \<Rightarrow> engine_error option \<times> setup_state" where
  "ensure_network E netName labels s =
     (if netName \<in> ss_createdNetworks s then (None, s)
      else
        (let h1 = ss_history s @ [NetworkInspect netName] in
         case answer E h1 of
           None \<Rightarrow>
             (None, s\<lparr>ss_createdNetworks := insert netName (ss_createdNetworks s),
                      ss_history := h1\<rparr>)
         | Some _ \<Rightarrow>
             (let h2 = h1 @ [NetworkCreate netName labels] in
              case answer E h2 of
                None \<Rightarrow>
                  (None, s\<lparr>ss_createdNetworks := insert netName (ss_createdNetworks s),
                           ss_history := h2\<rparr>)
              | Some err \<Rightarrow>
                  (let h3 = h2 @ [NetworkInspect netName] in
                   case answer E h3 of
                     None \<Rightarrow>
                       (None, s\<lparr>ss_createdNetworks := insert netName (ss_createdNetworks s),
                                ss_history := h3\<rparr>)
                   | Some ie \<Rightarrow> (Some err, s\<lparr>ss_history := h3\<rparr>)))))"

definition group_labels :: "uuid \<Rightarrow> uuid \<Rightarrow> string \<Rightarrow> (string \<times> string) list" where
  "group_labels job run grp =
     [(''deploy-commander.job'', job), (''deploy-commander.run'', run),
      (''deploy-commander.net'', grp), (''deploy-commander.kind'', ''group'')]"

definition resource_labels :: "uuid \<Rightarrow> uuid \<Rightarrow> string \<Rightarrow> (string \<times> string) list" where
  "resource_labels job run name =
     [(''deploy-commander.job'', job), (''deploy-commander.run'', run),
      (''deploy-commander.net'', name), (''deploy-commander.kind'', ''resource'')]"

definition job_labels :: "uuid \<Rightarrow> uuid \<Rightarrow> (string \<times> string) list" where
  "job_labels job run = [(''deploy-commander.job'', job), (''deploy-commander.run'', run)]"

fun network_groups :: "env \<Rightarrow> uuid \<Rightarrow> uuid \<Rightarrow> string list \<Rightarrow> phase" where
  "network_groups E job run [] s = (None, s)"
| "network_groups E job run (grp # groups) s =
     (let netName = DockerNetworkName job grp in
      case ensure_network E netName (group_labels job run grp) s of
        (Some err, s') \<Rightarrow>
          (Some (''create network '' @ quote netName @ '': '' @ error_text err), s')
      | (None, s') \<Rightarrow>
          network_groups E job run groups (s'\<lparr>ss_networks := insert netName (ss_networks s')\<rparr>))"

fun platform_connections :: "env \<Rightarrow> ResourceConnection list \<Rightarrow> phase" where
  "platform_connections E [] s = (None, s)"
| "platform_connections E (conn # conns) s =
     (case GetPlatformData conn of
        None \<Rightarrow> platform_connections E conns s
      | Some data \<Rightarrow>
          (case Unmarshal_platform E data of
             Inl err \<Rightarrow> (Some (''invalid platform connection data: '' @ err), s)
           | Inr network \<Rightarrow>
               if network = [] then (Some ''platform connection network is required'', s)
               else
                 (let netName = network;
                      h1 = ss_history s @ [NetworkInspect netName] in
                  case answer E h1 of
                    Some err \<Rightarrow>
                      (Some (''platform connection network '' @ quote netName @ '' not found: ''
                             @ error_text err),
                       s\<lparr>ss_history := h1\<rparr>)
                  | None \<Rightarrow>
                      platform_connections E conns
                        (s\<lparr>ss_networks := insert netName (ss_networks s), ss_history := h1\<rparr>))))"

fun service_resources :: "env \<Rightarrow> uuid \<Rightarrow> uuid \<Rightarrow> bool \<Rightarrow> CreateResourceSpec list \<Rightarrow> phase" where
  "service_resources E job run isRunner [] s = (None, s)"
| "service_resources E job run isRunner (spec # specs) s =
     (if isRunner then
        service_resources E job run isRunner specs
          (s\<lparr>ss_resources := ss_resources s @
               [\<lparr>cr_ResourceType = crs_ResourceType spec, cr_Name = crs_Name spec,
                 cr_PlatformConnection = None,
                 cr_PublicConnection = crs_PublicConnection spec,
                 cr_Metadata = crs_Metadata spec\<rparr>]\<rparr>)
      else
        (let netName = DockerNetworkResourceName job (crs_Name spec) in
         case ensure_network E netName (resource_labels job run (crs_Name spec)) s of
           (Some err, s') \<Rightarrow>
             (Some (''create resource network '' @ quote netName @ '': '' @ error_text err), s')
         | (None, s') \<Rightarrow>
             service_resources E job run isRunner specs
               (s'\<lparr>ss_resources := ss_resources s' @
                     [\<lparr>cr_ResourceType = crs_ResourceType spec, cr_Name = crs_Name spec,
                       cr_PlatformConnection = Some (Marshal_platform netName),
                       cr_PublicConnection = crs_PublicConnection spec,
                       cr_Metadata = crs_Metadata spec\<rparr>],
                   ss_resourceNames := add_name (crs_Name spec) (ss_resourceNames s'),
                   ss_networks := insert netName (ss_networks s')\<rparr>)))"

definition default_network :: "env \<Rightarrow> uuid \<Rightarrow> uuid \<Rightarrow> phase" where
  "default_network E job run s =
     (if ss_networks s = {} then
        (case ensure_network E job (job_labels job run) s of
           (Some err, s') \<Rightarrow> (Some (''create network '' @ quote job @ '': '' @ error_text err), s')
         | (None, s') \<Rightarrow> (None, s'\<lparr>ss_networks := insert job (ss_networks s')\<rparr>))
      else (None, s))"

fun volume_mounts :: "env \<Rightarrow> uuid \<Rightarrow> string \<Rightarrow> VolumeMount list \<Rightarrow> phase" where
  "volume_mounts E job serviceName [] s = (None, s)"
| "volume_mounts E job serviceName (vm # vms) s =
     (if TrimSpace (vm_MountPath vm) = []
      then (Some (''service '' @ quote serviceName @ '' volume mount_path is empty''), s)
      else
        volume_mounts E job serviceName vms
          (s\<lparr>ss_mounts := ss_mounts s @
               [(case vm_Name vm of
                   None \<Rightarrow> DockerRunnerVolumeName job
                 | Some n \<Rightarrow> DockerVolumeName (unicode_ToLower E) job n,
                 vm_MountPath vm)]\<rparr>))"

definition add_binding :: "((nat \<times> string) \<times> (string \<times> string) list) list \<Rightarrow> nat \<times> string
    \<Rightarrow> string \<times> string \<Rightarrow> ((nat \<times> string) \<times> (string \<times> string) list) list" where
  "add_binding portMap port b =
     (if port \<in> fst ` set portMap
      then map (\<lambda>(p, bs). if p = port then (p, bs @ [b]) else (p, bs)) portMap
      else portMap @ [(port, [b])])"

fun bind_protocols :: "env \<Rightarrow> string \<Rightarrow> BindingSpec \<Rightarrow> int \<Rightarrow> string list \<Rightarrow> phase" where
  "bind_protocols E serviceName b containerPort [] s = (None, s)"
| "bind_protocols E serviceName b containerPort (t # ts) s =
     (let port = (nat (containerPort mod 65536), t);
          s1 = s\<lparr>ss_exposed := (if port \<in> set (ss_exposed s) then ss_exposed s
                                 else ss_exposed s @ [port])\<rparr>
      in case bs_HostPort b of
           None \<Rightarrow> bind_protocols E serviceName b containerPort ts s1
         | Some hostPort \<Rightarrow>
             (let hostIP = (case bs_HostIP b of None \<Rightarrow> ''0.0.0.0'' | Some ip \<Rightarrow> ip) in
              case ParseAddr E hostIP of
                Some err \<Rightarrow>
                  (Some (''service '' @ quote serviceName @ '' has invalid host_ip ''
                         @ quote hostIP @ '': '' @ err), s1)
              | None \<Rightarrow>
                  bind_protocols E serviceName b containerPort ts
                    (s1\<lparr>ss_portMap := add_binding (ss_portMap s1) port (hostIP, Itoa hostPort)\<rparr>)))"

fun port_bindings :: "env \<Rightarrow> string \<Rightarrow> BindingSpec list \<Rightarrow> phase" where
  "port_bindings E serviceName [] s = (None, s)"
| "port_bindings E serviceName (b # bs) s =
     (case bs_ContainerPort b of
        None \<Rightarrow> port_bindings E serviceName bs s
      | Some containerPort \<Rightarrow>
          (case bind_protocols E serviceName b containerPort [''tcp'', ''udp''] s of
             (Some err, s') \<Rightarrow> (Some err, s')
           | (None, s') \<Rightarrow> port_bindings E serviceName bs s'))"

text \<open>
  The names in a container's label \<open>deploy-commander.resources\<close>, added to a set of
  names. The argument is the label's value, \<open>None\<close> when the inspected container has no
  such label. \<open>SetupService\<close>, \<open>RemoveServices\<close> and \<open>TearDownServices\<close> share this.
\<close>

definition label_names :: "env \<Rightarrow> string option \<Rightarrow> string list \<Rightarrow> string list" where
  "label_names E label resourceNames =
     (case label of
        None \<Rightarrow> resourceNames
      | Some v \<Rightarrow>
          if v = [] then resourceNames
          else
            (case Unmarshal_names E v of
               None \<Rightarrow> resourceNames
             | Some names \<Rightarrow>
                 foldl (\<lambda>acc n. if n \<noteq> [] then add_name n acc else acc) resourceNames names))"

definition replace_container :: "env \<Rightarrow> string \<Rightarrow> phase" where
  "replace_container E containerName s =
     (let h1 = ss_history s @ [ContainerInspect containerName] in
      case inspected E h1 of
        Inl _ \<Rightarrow> (None, s\<lparr>ss_history := h1\<rparr>)
      | Inr inspect \<Rightarrow>
          (let names = label_names E (ic_ResourcesLabel inspect) (ss_resourceNames s);
               h2 = h1 @ [ContainerStop containerName];
               h3 = h2 @ [ContainerRemove containerName] in
           case answer E h3 of
             Some err \<Rightarrow>
               (Some (''remove existing container '' @ quote containerName @ '': ''
                      @ error_text err),
                s\<lparr>ss_resourceNames := names, ss_history := h3\<rparr>)
           | None \<Rightarrow> (None, s\<lparr>ss_resourceNames := names, ss_history := h3\<rparr>)))"

definition container_labels :: "uuid \<Rightarrow> uuid \<Rightarrow> string \<Rightarrow> string list \<Rightarrow> (string \<times> string) list" where
  "container_labels job run serviceName resourceNames =
     [(''deploy-commander.job'', job), (''deploy-commander.run'', run),
      (''deploy-commander.service'', serviceName)]
     @ (if resourceNames \<noteq> [] then [(''deploy-commander.resources'', Marshal_names resourceNames)]
        else [])"

definition container_spec :: "uuid \<Rightarrow> uuid \<Rightarrow> string \<Rightarrow> MetadataService \<Rightarrow> string \<Rightarrow> setup_state
    \<Rightarrow> container_config" where
  "container_spec job run serviceName service containerName s =
     \<lparr>cc_Name = containerName,
      cc_Image = svc_Image service,
      cc_Env = map (\<lambda>(k, v). k @ ''='' @ v) (svc_Environment service),
      cc_Labels = container_labels job run serviceName (ss_resourceNames s),
      cc_ExposedPorts = ss_exposed s,
      cc_Mounts = ss_mounts s,
      cc_PortBindings = ss_portMap s,
      cc_RestartPolicy = (if IsRunnerRole service then ''no'' else ''always''),
      cc_Networks = ss_networks s,
      cc_Aliases = (case svc_Aliases service of None \<Rightarrow> [] | Some a \<Rightarrow> a)\<rparr>"

definition start_container :: "env \<Rightarrow> string \<Rightarrow> phase" where
  "start_container E containerName s =
     (let h1 = ss_history s @ [ContainerStart (ss_containerID s)] in
      case answer E h1 of
        Some err \<Rightarrow>
          (Some (''start container '' @ quote containerName @ '': '' @ error_text err),
           s\<lparr>ss_history := h1\<rparr>)
      | None \<Rightarrow> (None, s\<lparr>ss_history := h1\<rparr>))"

definition create_and_start :: "env \<Rightarrow> uuid \<Rightarrow> uuid \<Rightarrow> string \<Rightarrow> MetadataService \<Rightarrow> string \<Rightarrow> phase" where
  "create_and_start E job run serviceName service containerName s =
     (let h1 = ss_history s
                 @ [ContainerCreate (container_spec job run serviceName service containerName s)] in
      case created E h1 of
        Inl err \<Rightarrow>
          (let h2 = h1 @ [ContainerInspect containerName] in
           case inspected E h2 of
             Inl ie \<Rightarrow>
               (Some (''create container '' @ quote containerName @ '': '' @ error_text err),
                s\<lparr>ss_history := h2\<rparr>)
           | Inr inspect \<Rightarrow>
               start_container E containerName
                 (s\<lparr>ss_containerID := ic_ID inspect, ss_history := h2\<rparr>))
      | Inr cid \<Rightarrow>
          start_container E containerName (s\<lparr>ss_containerID := cid, ss_history := h1\<rparr>))"

text \<open>
  A runner: the logs are streamed by a goroutine while the main flow waits for the
  container; the history holds the wait before the end of the stream.
\<close>

definition run_to_completion :: "env \<Rightarrow> string \<Rightarrow> phase" where
  "run_to_completion E containerName s =
     (let h1 = ss_history s @ [ContainerLogs (ss_containerID s)] in
      case answer E h1 of
        Some err \<Rightarrow>
          (Some (''logs container '' @ quote containerName @ '': '' @ error_text err),
           s\<lparr>ss_history := h1\<rparr>)
      | None \<Rightarrow>
          (let h2 = h1 @ [ContainerWait (ss_containerID s)] in
           case waited E h2 of
             WaitError (Some err) \<Rightarrow>
               (Some (''wait container '' @ quote containerName @ '': '' @ err),
                s\<lparr>ss_history := h2\<rparr>)
           | w \<Rightarrow>
               (let statusCode = (case w of WaitStatus c \<Rightarrow> c | WaitError _ \<Rightarrow> 0);
                    h3 = h2 @ [DemuxDockerLogs (ss_containerID s)] in
                case demuxed E h3 of
                  Some err \<Rightarrow>
                    (Some (''stream logs for '' @ quote containerName @ '': '' @ err),
                     s\<lparr>ss_history := h3\<rparr>)
                | None \<Rightarrow>
                    (let h4 = h3 @ [ContainerRemove (ss_containerID s)] in
                     case answer E h4 of
                       Some err \<Rightarrow>
                         (Some (''remove container '' @ quote containerName @ '': ''
                                @ error_text err),
                          s\<lparr>ss_history := h4\<rparr>)
                     | None \<Rightarrow>
                         if statusCode \<noteq> 0
                         then (Some (''runner container '' @ quote containerName
                                     @ '' exited with status '' @ Itoa statusCode),
                               s\<lparr>ss_history := h4\<rparr>)
                         else (None, s\<lparr>ss_history := h4\<rparr>)))))"

fun publish_resources :: "env \<Rightarrow> CreateResource list \<Rightarrow> phase" where
  "publish_resources E [] s = (None, s)"
| "publish_resources E (resource # rest) s =
     (let h1 = ss_history s @ [AgentCreateResource resource] in
      case agent_answer E h1 of
        Some err \<Rightarrow> (Some (''Failed to send resource '' @ cr_Name resource), s\<lparr>ss_history := h1\<rparr>)
      | None \<Rightarrow> publish_resources E rest (s\<lparr>ss_history := h1\<rparr>))"

definition publish :: "env \<Rightarrow> phase" where
  "publish E s = (if comm_present E then publish_resources E (ss_resources s) s else (None, s))"

definition opt_list :: "'a list option \<Rightarrow> 'a list" where
  "opt_list xs = (case xs of None \<Rightarrow> [] | Some l \<Rightarrow> l)"

definition initial_state :: "string set \<Rightarrow> history \<Rightarrow> setup_state" where
  "initial_state createdNetworks h =
     \<lparr>ss_createdNetworks = createdNetworks, ss_networks = {}, ss_resources = [],
      ss_resourceNames = [], ss_mounts = [], ss_exposed = [], ss_portMap = [],
      ss_containerID = [], ss_history = h\<rparr>"

definition setup_phases :: "env \<Rightarrow> uuid \<Rightarrow> uuid \<Rightarrow> string \<Rightarrow> MetadataService \<Rightarrow> phase list" where
  "setup_phases E job run serviceName service =
     [network_groups E job run (opt_list (svc_NetworkGroups service)),
      platform_connections E (opt_list (svc_Connections service)),
      service_resources E job run (IsRunnerRole service) (opt_list (svc_Resources service)),
      default_network E job run,
      volume_mounts E job serviceName (opt_list (svc_Volumes service)),
      port_bindings E serviceName (opt_list (svc_Bindings service)),
      replace_container E (DockerServiceName job serviceName),
      create_and_start E job run serviceName service (DockerServiceName job serviceName),
      (if IsRunnerRole service then run_to_completion E (DockerServiceName job serviceName)
       else (\<lambda>s. (None, s))),
      publish E]"

text \<open>
  \<open>SetupService\<close> for a service that is not nil (\<open>ServiceSetup\<close> passes the address of
  its loop variable). It gives back the error, the set \<open>createdNetworks\<close>, which the
  code updates in place, and the history.
\<close>

definition SetupService :: "env \<Rightarrow> uuid \<Rightarrow> uuid \<Rightarrow> string set \<Rightarrow> history \<Rightarrow> string \<Rightarrow> MetadataService
    \<Rightarrow> error option \<times> string set \<times> history" where
  "SetupService E job run createdNetworks h serviceName service =
     (case run_phases (setup_phases E job run serviceName service)
             (initial_state createdNetworks h) of
        (err, s) \<Rightarrow> (err, ss_createdNetworks s, ss_history s))"

section \<open>Volumes, scheduling, removal, connections\<close>

definition volume_labels :: "uuid \<Rightarrow> uuid \<Rightarrow> string \<Rightarrow> (string \<times> string) list" where
  "volume_labels job run volName =
     [(''deploy-commander.job'', job), (''deploy-commander.run'', run),
      (''deploy-commander.volume'', volName)]"

fun provision_volumes :: "env \<Rightarrow> uuid \<Rightarrow> uuid \<Rightarrow> string list \<Rightarrow> history \<Rightarrow> error option \<times> history" where
  "provision_volumes E job run [] h = (None, h)"
| "provision_volumes E job run (volName # rest) h =
     (let name = DockerVolumeName (unicode_ToLower E) job volName;
          h1 = h @ [VolumeInspect name] in
      case answer E h1 of
        None \<Rightarrow> provision_volumes E job run rest h1
      | Some err \<Rightarrow>
          if \<not> IsNotFound err
          then (Some (''inspect volume '' @ quote name @ '': '' @ error_text err), h1)
          else
            (let h2 = h1 @ [VolumeCreate name (volume_labels job run volName)] in
             case answer E h2 of
               None \<Rightarrow> provision_volumes E job run rest h2
             | Some cerr \<Rightarrow>
                 (let h3 = h2 @ [VolumeInspect name] in
                  case answer E h3 of
                    None \<Rightarrow> provision_volumes E job run rest h3
                  | Some ie \<Rightarrow>
                      (Some (''create volume '' @ quote name @ '': '' @ error_text cerr), h3))))"

definition VolumeSetup :: "env \<Rightarrow> uuid \<Rightarrow> uuid \<Rightarrow> Metadata option \<Rightarrow> history \<Rightarrow> error option \<times> history" where
  "VolumeSetup E job run metadata h =
     (case metadata of
        None \<Rightarrow> (None, h)
      | Some md \<Rightarrow>
          (case md_Volumes md of
             None \<Rightarrow> (None, h)
           | Some vols \<Rightarrow> provision_volumes E job run vols h))"

text \<open>
  \<open>ServiceSetup\<close>. One pass over the services still to run; \<open>notRun\<close> collects those
  with a dependency that has not run yet.
\<close>

record sched_state =
  ranServices :: "string list"
  createdNetworks :: "string set"
  history :: history

definition cantRun :: "string list \<Rightarrow> MetadataService \<Rightarrow> bool" where
  "cantRun ranSvcs service =
     list_ex (\<lambda>dependency. dependency \<notin> set ranSvcs) (depends_on service)"

fun run_pass :: "env \<Rightarrow> uuid \<Rightarrow> uuid \<Rightarrow> services \<Rightarrow> sched_state \<Rightarrow> services
    \<Rightarrow> error option \<times> sched_state \<times> services" where
  "run_pass E job run [] st notRun = (None, st, notRun)"
| "run_pass E job run ((name, service) # rest) st notRun =
     (if cantRun (ranServices st) service
      then run_pass E job run rest st (notRun @ [(name, service)])
      else
        (case SetupService E job run (createdNetworks st) (history st @ [SetupServiceCall name])
                name service of
           (Some err, cn, h) \<Rightarrow> (Some err, st\<lparr>createdNetworks := cn, history := h\<rparr>, notRun)
         | (None, cn, h) \<Rightarrow>
             run_pass E job run rest
               \<lparr>ranServices = ranServices st @ [name], createdNetworks = cn,
                history = h @ [SetupServiceReturn name]\<rparr>
               notRun))"

text \<open>
  The loop \<open>for len(services) > 0\<close> may run forever, so it is given fuel: one unit
  for each pass. \<open>OutOfFuel\<close> says that the passes allowed did not end the loop.
\<close>

datatype outcome = Returned "error option" | OutOfFuel

fun service_passes :: "nat \<Rightarrow> env \<Rightarrow> uuid \<Rightarrow> uuid \<Rightarrow> services \<Rightarrow> sched_state \<Rightarrow> outcome \<times> sched_state" where
  "service_passes fuel E job run [] st = (Returned None, st)"
| "service_passes 0 E job run (x # xs) st = (OutOfFuel, st)"
| "service_passes (Suc fuel) E job run (x # xs) st =
     (case run_pass E job run (range_services E (history st) (x # xs)) st [] of
        (Some err, st', notRun) \<Rightarrow> (Returned (Some err), st')
      | (None, st', notRun) \<Rightarrow> service_passes fuel E job run notRun st')"

definition ServiceSetup :: "nat \<Rightarrow> env \<Rightarrow> uuid \<Rightarrow> uuid \<Rightarrow> Metadata \<Rightarrow> history \<Rightarrow> outcome \<times> history" where
  "ServiceSetup fuel E job run metadata h =
     (case service_passes fuel E job run (md_Services metadata)
             \<lparr>ranServices = [], createdNetworks = {}, history = h\<rparr> of
        (out, st) \<Rightarrow> (out, history st))"

text \<open>
  The calls \<open>DeleteResourceByName\<close>, whose errors the code drops: the agent is not
  asked for an answer.
\<close>

definition delete_resources :: "env \<Rightarrow> string list \<Rightarrow> history \<Rightarrow> history" where
  "delete_resources E resourceNames h =
     (if comm_present E then h @ map AgentDeleteResourceByName resourceNames else h)"

fun remove_containers :: "env \<Rightarrow> uuid \<Rightarrow> string list \<Rightarrow> string list \<Rightarrow> history
    \<Rightarrow> error option \<times> string list \<times> history" where
  "remove_containers E job [] resourceNames h = (None, resourceNames, h)"
| "remove_containers E job (service # rest) resourceNames h =
     (let containerName = DockerServiceName job service;
          h1 = h @ [ContainerInspect containerName] in
      case inspected E h1 of
        Inl _ \<Rightarrow> remove_containers E job rest resourceNames h1
      | Inr inspect \<Rightarrow>
          (let names = label_names E (ic_ResourcesLabel inspect) resourceNames;
               h2 = h1 @ [ContainerStop containerName];
               h3 = h2 @ [ContainerRemove containerName] in
           case answer E h3 of
             Some err \<Rightarrow>
               (Some (''remove existing container '' @ quote containerName @ '': ''
                      @ error_text err), names, h3)
           | None \<Rightarrow> remove_containers E job rest names h3))"

definition RemoveServices :: "env \<Rightarrow> uuid \<Rightarrow> string list option \<Rightarrow> history \<Rightarrow> error option \<times> history" where
  "RemoveServices E job removeServices h =
     (case removeServices of
        None \<Rightarrow> (None, h)
      | Some servs \<Rightarrow>
          (case remove_containers E job servs [] h of
             (Some err, names, h') \<Rightarrow> (Some err, h')
           | (None, names, h') \<Rightarrow> (None, delete_resources E names h')))"

fun remove_volumes :: "env \<Rightarrow> uuid \<Rightarrow> string list \<Rightarrow> history \<Rightarrow> error option \<times> history" where
  "remove_volumes E job [] h = (None, h)"
| "remove_volumes E job (volume # rest) h =
     (if volume = [] then remove_volumes E job rest h
      else
        (let volumeName = DockerVolumeName (unicode_ToLower E) job volume;
             h1 = h @ [VolumeRemove volumeName] in
         case answer E h1 of
           None \<Rightarrow> remove_volumes E job rest h1
         | Some err \<Rightarrow>
             if IsNotFound err then remove_volumes E job rest h1
             else (Some (''remove volume '' @ quote volumeName @ '': '' @ error_text err), h1)))"

definition RemoveVolumes :: "env \<Rightarrow> uuid \<Rightarrow> string list option \<Rightarrow> history \<Rightarrow> error option \<times> history" where
  "RemoveVolumes E job removeVolumes h =
     (case removeVolumes of None \<Rightarrow> (None, h) | Some vols \<Rightarrow> remove_volumes E job vols h)"

text \<open>
  \<open>SetupConnections\<close>. The message of \<open>resolveResourceID\<close> for a reference by service
  and name ends with the two pointers as \<open>%v\<close> prints them; that tail is left out.
\<close>

definition resolveResourceID :: "ResourceRef \<Rightarrow> error + uuid" where
  "resolveResourceID ref =
     (case ref_ID ref of
        Some rid \<Rightarrow> Inr rid
      | None \<Rightarrow>
          if ref_Service ref \<noteq> None \<or> ref_Name ref \<noteq> None
          then Inl ''cannot resolve resource by service/name in runner; ResourceRef.id is required''
          else Inl ''resource ref is empty; ResourceRef.id is required'')"

fun create_connections :: "env \<Rightarrow> CreateConnectionSpec list \<Rightarrow> history \<Rightarrow> error option \<times> history" where
  "create_connections E [] h = (None, h)"
| "create_connections E (spec # rest) h =
     (case resolveResourceID (ccs_Resource spec) of
        Inl err \<Rightarrow> (Some (''create connection: '' @ err), h)
      | Inr resourceID \<Rightarrow>
          (let h1 = h @ [AgentCreateConnection resourceID (ccs_Job spec) (ccs_Metadata spec)] in
           case agent_answer E h1 of
             Some err \<Rightarrow>
               (Some (''create connection (resource='' @ resourceID @ '' job='' @ ccs_Job spec
                      @ ''): '' @ err), h1)
           | None \<Rightarrow> create_connections E rest h1))"

fun remove_connections :: "env \<Rightarrow> RemoveConnectionSpec list \<Rightarrow> history \<Rightarrow> error option \<times> history" where
  "remove_connections E [] h = (None, h)"
| "remove_connections E (spec # rest) h =
     (case rcs_ID spec of
        Some cid \<Rightarrow>
          (case rcs_Resource spec of
             None \<Rightarrow>
               (Some (''remove connection '' @ cid
                      @ '': resource ref is required (DeleteConnection needs resourceID + connectionID)''),
                h)
           | Some ref \<Rightarrow>
               (case resolveResourceID ref of
                  Inl err \<Rightarrow> (Some (''remove connection '' @ cid @ '': '' @ err), h)
                | Inr resourceID \<Rightarrow>
                    (let h1 = h @ [AgentDeleteConnection resourceID cid] in
                     case agent_answer E h1 of
                       Some err \<Rightarrow>
                         (Some (''delete connection (resource='' @ resourceID @ '' id='' @ cid
                                @ ''): '' @ err), h1)
                     | None \<Rightarrow> remove_connections E rest h1)))
      | None \<Rightarrow>
          if rcs_Resource spec \<noteq> None
          then (Some ''remove connections for resource: unsupported with current API (need list-connections or delete-by-resource endpoint)'', h)
          else remove_connections E rest h)"

definition SetupConnections :: "env \<Rightarrow> ConnectionPlan option \<Rightarrow> history \<Rightarrow> error option \<times> history" where
  "SetupConnections E connectionPlan h =
     (case connectionPlan of
        None \<Rightarrow> (None, h)
      | Some plan \<Rightarrow>
          if \<not> comm_present E then (None, h)
          else
            (case create_connections E (opt_list (plan_Create plan)) h of
               (Some err, h') \<Rightarrow> (Some err, h')
             | (None, h') \<Rightarrow> remove_connections E (opt_list (plan_Remove plan)) h'))"

section \<open>Teardown\<close>

definition job_filter :: "uuid \<Rightarrow> string" where
  "job_filter job = ''deploy-commander.job='' @ job"

fun teardown_containers :: "env \<Rightarrow> string list \<Rightarrow> string list \<Rightarrow> history
    \<Rightarrow> error option \<times> string list \<times> history" where
  "teardown_containers E [] resourceNames h = (None, resourceNames, h)"
| "teardown_containers E (cID # rest) resourceNames h =
     (let h1 = h @ [ContainerInspect cID] in
      case inspected E h1 of
        Inl err \<Rightarrow>
          if IsNotFound err then teardown_containers E rest resourceNames h1
          else (Some (''inspect container '' @ quote cID @ '': '' @ error_text err),
                resourceNames, h1)
      | Inr inspect \<Rightarrow>
          (let names = label_names E (ic_ResourcesLabel inspect) resourceNames;
               h2 = h1 @ [ContainerStop cID];
               h3 = h2 @ [ContainerRemove cID] in
           case answer E h3 of
             None \<Rightarrow> teardown_containers E rest names h3
           | Some err \<Rightarrow>
               if IsNotFound err then teardown_containers E rest names h3
               else (Some (''remove container '' @ quote cID @ '': '' @ error_text err),
                     names, h3)))"

definition TearDownServices :: "env \<Rightarrow> uuid \<Rightarrow> history \<Rightarrow> error option \<times> history" where
  "TearDownServices E job h =
     (let h1 = h @ [ContainerList (job_filter job)] in
      case listed_containers E h1 of
        Inl err \<Rightarrow>
          (Some (''list job containers (job='' @ job @ ''): '' @ error_text err), h1)
      | Inr containers \<Rightarrow>
          (case teardown_containers E containers [] h1 of
             (Some err, names, h') \<Rightarrow> (Some err, h')
           | (None, names, h') \<Rightarrow> (None, delete_resources E names h')))"

fun teardown_volumes :: "env \<Rightarrow> string list \<Rightarrow> history \<Rightarrow> error option \<times> history" where
  "teardown_volumes E [] h = (None, h)"
| "teardown_volumes E (vName # rest) h =
     (if vName = [] then teardown_volumes E rest h
      else
        (let h1 = h @ [VolumeRemove vName] in
         case answer E h1 of
           None \<Rightarrow> teardown_volumes E rest h1
         | Some err \<Rightarrow>
             if IsNotFound err then teardown_volumes E rest h1
             else (Some (''remove volume '' @ quote vName @ '': '' @ error_text err), h1)))"

definition TearDownVolumes :: "env \<Rightarrow> uuid \<Rightarrow> history \<Rightarrow> error option \<times> history" where
  "TearDownVolumes E job h =
     (let h1 = h @ [VolumeList (job_filter job)] in
      case listed_volumes E h1 of
        Inl err \<Rightarrow> (Some (''list job volumes (job='' @ job @ ''): '' @ error_text err), h1)
      | Inr vols \<Rightarrow> teardown_volumes E vols h1)"

fun teardown_networks :: "env \<Rightarrow> (string \<times> string) list \<Rightarrow> history \<Rightarrow> error option \<times> history" where
  "teardown_networks E [] h = (None, h)"
| "teardown_networks E ((nName, nID) # rest) h =
     (if nName = [] \<or> nID = [] then teardown_networks E rest h
      else
        (let h1 = h @ [NetworkRemove nID] in
         case answer E h1 of
           None \<Rightarrow> teardown_networks E rest h1
         | Some err \<Rightarrow>
             if IsNotFound err then teardown_networks E rest h1
             else (Some (''remove network '' @ quote nName @ '' ('' @ nID @ ''): ''
                         @ error_text err), h1)))"

definition TearDownNetworks :: "env \<Rightarrow> uuid \<Rightarrow> history \<Rightarrow> error option \<times> history" where
  "TearDownNetworks E job h =
     (let h1 = h @ [NetworkList (job_filter job)] in
      case listed_networks E h1 of
        Inl err \<Rightarrow> (Some (''list job networks (job='' @ job @ ''): '' @ error_text err), h1)
      | Inr nets \<Rightarrow> teardown_networks E nets h1)"

definition Teardown :: "env \<Rightarrow> uuid \<Rightarrow> history \<Rightarrow> error option \<times> history" where
  "Teardown E job h =
     (case TearDownServices E job h of
        (Some err, h1) \<Rightarrow> (Some err, h1)
      | (None, h1) \<Rightarrow>
          (case TearDownVolumes E job h1 of
             (Some err, h2) \<Rightarrow> (Some err, h2)
           | (None, h2) \<Rightarrow> TearDownNetworks E job h2))"

section \<open>The platform's entry point\<close>

text \<open>
  \<open>Run\<close>, from an empty history. The fuel is that of \<open>ServiceSetup\<close>; nothing else in a
  run loops without bound.
\<close>

definition Run :: "nat \<Rightarrow> env \<Rightarrow> Configuration \<Rightarrow> outcome \<times> history" where
  "Run fuel E config =
     (if cfg_Action config = ''teardown''
      then (case Teardown E (cfg_Job config) [] of (err, h) \<Rightarrow> (Returned err, h))
      else
        (case cfg_Metadata config of
           None \<Rightarrow> (Returned None, [])
         | Some metadata \<Rightarrow>
             (case CheckMetadata E (cfg_Job config) (Some metadata) [] of
                (Some err, h) \<Rightarrow> (Returned (Some err), h)
              | (None, h) \<Rightarrow>
                  (case VolumeSetup E (cfg_Job config) (cfg_Run config) (Some metadata) h of
                     (Some err, h) \<Rightarrow> (Returned (Some err), h)
                   | (None, h) \<Rightarrow>
                       (case ServiceSetup fuel E (cfg_Job config) (cfg_Run config) metadata h of
                          (OutOfFuel, h) \<Rightarrow> (OutOfFuel, h)
                        | (Returned (Some err), h) \<Rightarrow> (Returned (Some err), h)
                        | (Returned None, h) \<Rightarrow>
                            (case RemoveServices E (cfg_Job config) (md_RemoveServices metadata) h of
                               (Some err, h) \<Rightarrow> (Returned (Some err), h)
                             | (None, h) \<Rightarrow>
                                 (case RemoveVolumes E (cfg_Job config) (md_RemoveVolumes metadata) h of
                                    (Some err, h) \<Rightarrow> (Returned (Some err), h)
                                  | (None, h) \<Rightarrow>
                                      (case SetupConnections E (md_Connections metadata) h of
                                         (err, h) \<Rightarrow> (Returned err, h)))))))))"

section \<open>Environments and manifests for the examples\<close>

text \<open>
  \<open>fresh_engine\<close>: nothing exists yet (every inspect call answers not found), every
  other call succeeds, an agent is present, and the connection data and the labels are
  read with the two small parsers below. \<open>no_agent\<close> is the same engine where
  \<open>p.comm\<close> is nil.
\<close>

definition not_found :: engine_error where
  "not_found = EngineError True ''not found''"

definition fresh_answer :: "history \<Rightarrow> engine_error option" where
  "fresh_answer h =
     (case last h of
        VolumeInspect n \<Rightarrow> Some not_found
      | NetworkInspect n \<Rightarrow> Some not_found
      | _ \<Rightarrow> None)"

definition parse_network :: "raw_json \<Rightarrow> error + string" where
  "parse_network d =
     (if take 12 d = take 12 (Marshal_platform []) \<and> 14 \<le> length d
         \<and> drop (length d - 2) d = drop 12 (Marshal_platform [])
      then Inr (take (length d - 14) (drop 12 d))
      else Inl ''invalid character'')"

definition parse_main :: "string \<Rightarrow> string list option" where
  "parse_main v = (if v = Marshal_names [''main''] then Some [''main''] else None)"

definition fresh_engine :: env where
  "fresh_engine =
     \<lparr>answer = fresh_answer,
      inspected = (\<lambda>h. Inl not_found),
      created = (\<lambda>h. Inr ''c1''),
      waited = (\<lambda>h. WaitStatus 0),
      demuxed = (\<lambda>h. None),
      listed_containers = (\<lambda>h. Inr []),
      listed_volumes = (\<lambda>h. Inr []),
      listed_networks = (\<lambda>h. Inr []),
      comm_present = True,
      agent_answer = (\<lambda>h. None),
      Unmarshal_platform = parse_network,
      Unmarshal_names = parse_main,
      ParseAddr = (\<lambda>a. None),
      range_services = (\<lambda>h xs. xs),
      unicode_ToLower = (\<lambda>s. s)\<rparr>"

definition no_agent :: env where
  "no_agent = fresh_engine\<lparr>comm_present := False\<rparr>"

definition needs :: "string list \<Rightarrow> MetadataService" where
  "needs deps = zero_service\<lparr>svc_Image := ''img'', svc_DependsOn := Some deps\<rparr>"

definition manifest :: "services \<Rightarrow> Metadata" where
  "manifest xs = \<lparr>md_Services = xs, md_RemoveServices = None, md_Volumes = None,
     md_RemoveVolumes = None, md_Connections = None\<rparr>"

definition setup_of :: "Metadata \<Rightarrow> Configuration" where
  "setup_of md = \<lparr>cfg_Job = ''j'', cfg_Run = ''r'', cfg_Runner = ''runner-1'',
     cfg_Platform = ''docker'', cfg_PlatformData = None, cfg_Action = ''setup'',
     cfg_Metadata = Some md\<rparr>"

section \<open>Notions used in the statements\<close>

text \<open>
  \<open>range\<close> over a Go map yields every entry of the map and nothing else; the order
  is left open.
\<close>

definition fair_range :: "env \<Rightarrow> bool" where
  "fair_range E = (\<forall>h xs. set (range_services E h xs) = set xs)"

text \<open>\<open>strings.Contains\<close>.\<close>

definition Contains :: "string \<Rightarrow> string \<Rightarrow> bool" where
  "Contains s substr =
     list_ex (\<lambda>i. take (length substr) (drop i s) = substr) [0..<Suc (length s)]"

text \<open>An entry of the remove list with neither an id nor a resource.\<close>

definition skipped :: RemoveConnectionSpec where
  "skipped = \<lparr>rcs_ID = None, rcs_Resource = None\<rparr>"

text \<open>
  The dependency graph of a manifest: an edge from a service to each entry of its
  \<open>depends_on\<close> that is a service of the manifest. A manifest has a cycle when some
  service reaches itself along one edge or more.
\<close>

definition dep_edges :: "services \<Rightarrow> (string \<times> string) list" where
  "dep_edges services =
     concat (map (\<lambda>k. map (Pair k)
                        (filter (\<lambda>d. map_of services d \<noteq> None)
                           (depends_on (lookup_service services k))))
                 (map fst services))"

definition has_cycle :: "services \<Rightarrow> bool" where
  "has_cycle services = (\<exists>a \<in> set (map fst services). (a, a) \<in> (set (dep_edges services))\<^sup>+)"

text \<open>
  The invariant of the search: the finished (\<open>Visited\<close>) services are closed under the
  edges and none of them lies on a cycle.
\<close>

definition closed_visited :: "services \<Rightarrow> dfs_state \<Rightarrow> bool" where
  "closed_visited S ds \<longleftrightarrow>
     (\<forall>u d. state ds u = Visited \<and> (u, d) \<in> set (dep_edges S) \<longrightarrow> state ds d = Visited)
     \<and> (\<forall>u. state ds u = Visited \<longrightarrow> (u, u) \<notin> (set (dep_edges S))\<^sup>+)"

definition dfs_post :: "services \<Rightarrow> dfs_state \<Rightarrow> dfs_state \<Rightarrow> bool" where
  "dfs_post S ds r \<longleftrightarrow>
     (\<forall>k. (state r k = Visiting) = (state ds k = Visiting))
     \<and> (\<forall>k. state ds k = Visited \<longrightarrow> state r k = Visited)
     \<and> (closed_visited S ds \<longrightarrow> closed_visited S r)"

text \<open>
  \<open>labelled_engine\<close>: the job has one container, \<open>c1\<close>, whose label of resources
  names \<open>main\<close>.
\<close>

definition labelled_engine :: env where
  "labelled_engine = fresh_engine
     \<lparr>listed_containers := (\<lambda>h. Inr [''c1'']),
      inspected := (\<lambda>h. Inr \<lparr>ic_ID = ''c1'', ic_ResourcesLabel = Some (Marshal_names [''main''])\<rparr>)\<rparr>"

text \<open>
  \<open>labels_kept E h h' names\<close>: for every \<open>ContainerInspect\<close> that the history \<open>h'\<close>
  holds after \<open>h\<close> and that the engine answered with a container, the names of that
  container's label of resources are among \<open>names\<close>.
\<close>

definition labels_kept :: "env \<Rightarrow> history \<Rightarrow> history \<Rightarrow> string list \<Rightarrow> bool" where
  "labels_kept E h h' names \<longleftrightarrow>
     (\<forall>hp rest cID ic. h' = h @ hp @ ContainerInspect cID # rest
        \<and> inspected E (h @ hp @ [ContainerInspect cID]) = Inr ic
        \<longrightarrow> set (label_names E (ic_ResourcesLabel ic) []) \<subseteq> set names)"

text \<open>
  Notions for the phases of \<open>SetupService\<close>. \<open>extends Q s s'\<close>: the history of \<open>s'\<close>
  is that of \<open>s\<close> followed by events that all satisfy \<open>Q\<close>. \<open>grows s s'\<close>: no network
  has left \<open>createdNetworks\<close> or the set of networks to attach. \<open>platform_names\<close>: the
  network names read from the platform connections of a list. \<open>runner_resource\<close> and
  \<open>service_resource\<close>: the \<open>CreateResource\<close> built for a resource of a runner and of
  another service.
\<close>

definition extends :: "(event \<Rightarrow> bool) \<Rightarrow> setup_state \<Rightarrow> setup_state \<Rightarrow> bool" where
  "extends Q s s' \<longleftrightarrow> (\<exists>evs. ss_history s' = ss_history s @ evs \<and> list_all Q evs)"

definition grows :: "setup_state \<Rightarrow> setup_state \<Rightarrow> bool" where
  "grows s s' \<longleftrightarrow> ss_createdNetworks s \<subseteq> ss_createdNetworks s' \<and> ss_networks s \<subseteq> ss_networks s'"

definition same_nets :: "setup_state \<Rightarrow> setup_state \<Rightarrow> bool" where
  "same_nets s s' \<longleftrightarrow> ss_createdNetworks s' = ss_createdNetworks s
     \<and> ss_networks s' = ss_networks s \<and> ss_resources s' = ss_resources s"

definition platform_names :: "env \<Rightarrow> ResourceConnection list \<Rightarrow> string set" where
  "platform_names E conns =
     {n. \<exists>c \<in> set conns. \<exists>d. GetPlatformData c = Some d \<and> Unmarshal_platform E d = Inr n}"

definition runner_resource :: "CreateResourceSpec \<Rightarrow> CreateResource" where
  "runner_resource spec =
     \<lparr>cr_ResourceType = crs_ResourceType spec, cr_Name = crs_Name spec,
      cr_PlatformConnection = None, cr_PublicConnection = crs_PublicConnection spec,
      cr_Metadata = crs_Metadata spec\<rparr>"

definition service_resource :: "uuid \<Rightarrow> CreateResourceSpec \<Rightarrow> CreateResource" where
  "service_resource job spec =
     \<lparr>cr_ResourceType = crs_ResourceType spec, cr_Name = crs_Name spec,
      cr_PlatformConnection = Some (Marshal_platform (DockerNetworkResourceName job (crs_Name spec))),
      cr_PublicConnection = crs_PublicConnection spec,
      cr_Metadata = crs_Metadata spec\<rparr>"

text \<open>
  \<open>service_event E job run serviceName service e\<close>: \<open>e\<close> is one of the calls that
  \<open>SetupService\<close> can make for this service. \<open>built_resource\<close> is the
  \<open>CreateResource\<close> it builds for a resource of the service.
\<close>

definition built_resource :: "uuid \<Rightarrow> MetadataService \<Rightarrow> CreateResourceSpec \<Rightarrow> CreateResource" where
  "built_resource job service spec =
     (if IsRunnerRole service then runner_resource spec else service_resource job spec)"

definition service_event :: "env \<Rightarrow> uuid \<Rightarrow> uuid \<Rightarrow> string \<Rightarrow> MetadataService \<Rightarrow> event \<Rightarrow> bool" where
  "service_event E job run serviceName service e \<longleftrightarrow>
     (\<exists>g \<in> set (opt_list (svc_NetworkGroups service)).
        e = NetworkInspect (DockerNetworkName job g)
        \<or> e = NetworkCreate (DockerNetworkName job g) (group_labels job run g))
     \<or> (\<exists>n \<in> platform_names E (opt_list (svc_Connections service)).
          n \<noteq> [] \<and> e = NetworkInspect n)
     \<or> (\<not> IsRunnerRole service
         \<and> (\<exists>x \<in> set (opt_list (svc_Resources service)).
               e = NetworkInspect (DockerNetworkResourceName job (crs_Name x))
               \<or> e = NetworkCreate (DockerNetworkResourceName job (crs_Name x))
                     (resource_labels job run (crs_Name x))))
     \<or> e = NetworkInspect job \<or> e = NetworkCreate job (job_labels job run)
     \<or> e = ContainerInspect (DockerServiceName job serviceName)
     \<or> e = ContainerStop (DockerServiceName job serviceName)
     \<or> e = ContainerRemove (DockerServiceName job serviceName)
     \<or> (\<exists>cfg. e = ContainerCreate cfg) \<or> (\<exists>i. e = ContainerStart i)
     \<or> (IsRunnerRole service
         \<and> ((\<exists>i. e = ContainerLogs i) \<or> (\<exists>i. e = ContainerWait i)
              \<or> (\<exists>i. e = DemuxDockerLogs i) \<or> (\<exists>i. e = ContainerRemove i)))
     \<or> (comm_present E
         \<and> (\<exists>x \<in> set (opt_list (svc_Resources service)).
               e = AgentCreateResource (built_resource job service x)))"

section \<open>Naming: results\<close>

lemma leading_space: "leading space_runes (CHR '' '' # t) = Some '' ''"
  by (simp add: leading_def space_runes_def)

lemma leading_plain: "leading space_runes (c # t) = Some '' '' \<Longrightarrow> c = CHR '' ''"
  by (drule leading_Some) simp

lemma only_plain_spaces_iff:
  "only_plain_spaces s \<longleftrightarrow>
     (\<forall>i < length s. case leading space_runes (drop i s) of None \<Rightarrow> True | Some q \<Rightarrow> q = '' '')"
  by (auto simp: only_plain_spaces_def list_all_iff)

lemma only_plain_spaces_Cons:
  assumes "only_plain_spaces (c # t)"
  shows "only_plain_spaces t"
    and "leading space_runes (c # t) = None \<or> leading space_runes (c # t) = Some '' ''"
proof -
  have all: "case leading space_runes (drop i (c # t)) of None \<Rightarrow> True | Some q \<Rightarrow> q = '' ''"
    if "i < length (c # t)" for i
    using assms that unfolding only_plain_spaces_iff by blast
  have "case leading space_runes (drop i t) of None \<Rightarrow> True | Some q \<Rightarrow> q = '' ''"
    if "i < length t" for i
    using all [of "Suc i"] that by simp
  then show "only_plain_spaces t" unfolding only_plain_spaces_iff by blast
  show "leading space_runes (c # t) = None \<or> leading space_runes (c # t) = Some '' ''"
    using all [of 0] by (auto split: option.splits)
qed

lemma dash_spaces_plain: "only_plain_spaces s \<Longrightarrow> dash_spaces s = ReplaceSpaces s"
proof (induction s)
  case Nil
  show ?case by (simp add: ReplaceSpaces_def dash_spaces.simps [of "[]"])
next
  case (Cons c t)
  have ih: "dash_spaces t = ReplaceSpaces t"
    using Cons.IH only_plain_spaces_Cons(1) [OF Cons.prems] by simp
  from only_plain_spaces_Cons(2) [OF Cons.prems] show ?case
  proof (elim disjE)
    assume 1: "leading space_runes (c # t) = None"
    then have c: "c \<noteq> CHR '' ''" using leading_space [of t] by auto
    have "dash_spaces (c # t) = c # dash_spaces t"
      by (subst dash_spaces.simps) (simp add: 1)
    then show ?thesis using c ih by (simp add: ReplaceSpaces_def)
  next
    assume 2: "leading space_runes (c # t) = Some '' ''"
    then have c: "c = CHR '' ''" by (rule leading_plain)
    have "dash_spaces (c # t) = CHR ''-'' # dash_spaces t"
      by (subst dash_spaces.simps) (simp add: 2)
    then show ?thesis using c ih by (simp add: ReplaceSpaces_def)
  qed
qed

text \<open>
  C6 (as amended). For every job id and logical volume name, \<open>DockerVolumeName\<close>
  returns exactly \<open>dc-\<close>, the trimmed and lowercased job id, a dash, and the trimmed
  and lowercased volume name, with every space character (U+0020) replaced by a dash;
  whenever the space is the only white space character left in both lowercased, trimmed
  names, this is the name the specification gives; and two invocations on the same pair
  give the same bytes. \<open>U\<close> is the lowercasing of package \<open>unicode\<close>.
\<close>

theorem DockerVolumeName_spaces_dashed:
  "DockerVolumeName U job volume =
     ''dc-'' @ ReplaceSpaces (ToLower U (TrimSpace job)) @ ''-''
       @ ReplaceSpaces (ToLower U (TrimSpace volume))
   \<and> (only_plain_spaces (ToLower U (TrimSpace job))
        \<and> only_plain_spaces (ToLower U (TrimSpace volume))
        \<longrightarrow> DockerVolumeName U job volume = spec_NamedVolume U job volume)
   \<and> (\<forall>job' volume'. job' = job \<and> volume' = volume
        \<longrightarrow> DockerVolumeName U job' volume' = DockerVolumeName U job volume)"
  by (simp add: DockerVolumeName_def spec_NamedVolume_def safe_def spec_dashed_def
      dash_spaces_plain)

theorem DockerVolumeName_spaces_dashed_witness:
  "\<forall>U. DockerVolumeName U ''  Job 1 '' [CHR 0xC2, CHR 0xA0, CHR ''M'', CHR ''y'', CHR '' '',
         CHR ''D'', CHR ''a'', CHR ''t'', CHR ''a'', CHR 0x09] = ''dc-job-1-my-data''
     \<and> DockerVolumeName U ''  Job 1 '' [CHR 0xC2, CHR 0xA0, CHR ''M'', CHR ''y'', CHR '' '',
         CHR ''D'', CHR ''a'', CHR ''t'', CHR ''a'', CHR 0x09]
       = spec_NamedVolume U ''  Job 1 '' [CHR 0xC2, CHR 0xA0, CHR ''M'', CHR ''y'', CHR '' '',
         CHR ''D'', CHR ''a'', CHR ''t'', CHR ''a'', CHR 0x09]"
proof
  fix U :: "string \<Rightarrow> string"
  let ?v = "[CHR 0xC2, CHR 0xA0, CHR ''M'', CHR ''y'', CHR '' '',
         CHR ''D'', CHR ''a'', CHR ''t'', CHR ''a'', CHR 0x09]"
  have t1: "TrimSpace ''  Job 1 '' = ''Job 1''" by code_simp
  have t2: "TrimSpace ?v = ''My Data''" by code_simp
  have l1: "ToLower U ''Job 1'' = ''job 1''"
    by (simp add: ToLower_def is_ascii_def toLowerChar_def)
  have l2: "ToLower U ''My Data'' = ''my data''"
    by (simp add: ToLower_def is_ascii_def toLowerChar_def)
  have p1: "only_plain_spaces ''job 1''" by code_simp
  have p2: "only_plain_spaces ''my data''" by code_simp
  have r: "ReplaceSpaces ''job 1'' = ''job-1''" "ReplaceSpaces ''my data'' = ''my-data''"
    by (simp_all add: ReplaceSpaces_def)
  have inst: "DockerVolumeName U ''  Job 1 '' ?v = ''dc-'' @ ''job-1'' @ ''-'' @ ''my-data''
      \<and> (only_plain_spaces ''job 1'' \<and> only_plain_spaces ''my data''
          \<longrightarrow> DockerVolumeName U ''  Job 1 '' ?v = spec_NamedVolume U ''  Job 1 '' ?v)"
    using DockerVolumeName_spaces_dashed [of U "''  Job 1 ''" ?v]
    unfolding t1 t2 l1 l2 r by blast
  then have "DockerVolumeName U ''  Job 1 '' ?v = ''dc-job-1-my-data''" by simp
  moreover have "DockerVolumeName U ''  Job 1 '' ?v = spec_NamedVolume U ''  Job 1 '' ?v"
    using inst p1 p2 by blast
  ultimately show "DockerVolumeName U ''  Job 1 '' ?v = ''dc-job-1-my-data''
     \<and> DockerVolumeName U ''  Job 1 '' ?v = spec_NamedVolume U ''  Job 1 '' ?v"
    by (rule conjI)
qed

text \<open>
  C6 (as stated) fails on a tab inside the volume name: the code keeps the tab, where
  the specification's name has a dash.
\<close>

theorem DockerVolumeName_tab_counterexample:
  "\<forall>U. DockerVolumeName U ''j'' [CHR ''a'', CHR 0x09, CHR ''b'']
         = [CHR ''d'', CHR ''c'', CHR ''-'', CHR ''j'', CHR ''-'', CHR ''a'', CHR 0x09, CHR ''b'']
     \<and> spec_NamedVolume U ''j'' [CHR ''a'', CHR 0x09, CHR ''b''] = ''dc-j-a-b''
     \<and> DockerVolumeName U ''j'' [CHR ''a'', CHR 0x09, CHR ''b'']
         \<noteq> spec_NamedVolume U ''j'' [CHR ''a'', CHR 0x09, CHR ''b'']"
proof
  fix U :: "string \<Rightarrow> string"
  let ?v = "[CHR ''a'', CHR 0x09, CHR ''b'']"
  have t1: "TrimSpace ''j'' = ''j''" by code_simp
  have t2: "TrimSpace ?v = ?v" by code_simp
  have l1: "ToLower U ''j'' = ''j''"
    by (simp add: ToLower_def is_ascii_def toLowerChar_def)
  have l2: "ToLower U ?v = ?v"
    by (simp add: ToLower_def is_ascii_def toLowerChar_def)
  have d1: "dash_spaces ''j'' = ''j''" by code_simp
  have d2: "dash_spaces ?v = ''a-b''" by code_simp
  show "DockerVolumeName U ''j'' ?v
         = [CHR ''d'', CHR ''c'', CHR ''-'', CHR ''j'', CHR ''-'', CHR ''a'', CHR 0x09, CHR ''b'']
     \<and> spec_NamedVolume U ''j'' ?v = ''dc-j-a-b''
     \<and> DockerVolumeName U ''j'' ?v \<noteq> spec_NamedVolume U ''j'' ?v"
    by (simp add: DockerVolumeName_def spec_NamedVolume_def safe_def spec_dashed_def
        ReplaceSpaces_def t1 t2 l1 l2 d1 d2)
qed

section \<open>The connection plan\<close>

lemma remove_connections_skip:
  "remove_connections E (xs @ skipped # ys) h = remove_connections E (xs @ ys) h"
  by (induction xs arbitrary: h) (auto simp: skipped_def Let_def split: option.splits sum.splits)

text \<open>
  C10. An entry of the remove list with neither an id nor a resource is skipped in
  silence: \<open>SetupConnections\<close> gives the same error (or none) and the same history,
  so the same agent calls, as on the plan without that entry, wherever the entry stands
  in the list.
\<close>

theorem SetupConnections_skips_empty_remove:
  "remove_connections E (skipped # ys) h = remove_connections E ys h
   \<and> remove_connections E (xs @ skipped # ys) h = remove_connections E (xs @ ys) h
   \<and> SetupConnections E (Some \<lparr>plan_Create = c, plan_Remove = Some (xs @ skipped # ys)\<rparr>) h
     = SetupConnections E (Some \<lparr>plan_Create = c, plan_Remove = Some (xs @ ys)\<rparr>) h"
proof -
  have "remove_connections E (xs @ skipped # ys) h' = remove_connections E (xs @ ys) h'" for h'
    by (rule remove_connections_skip)
  moreover have "remove_connections E (skipped # ys) h = remove_connections E ys h"
    by (simp add: skipped_def)
  ultimately show ?thesis
    by (simp add: SetupConnections_def opt_list_def split: prod.splits option.splits)
qed

theorem SetupConnections_skips_empty_remove_witness:
  "SetupConnections fresh_engine (Some \<lparr>plan_Create = None, plan_Remove = Some [skipped]\<rparr>) []
     = (None, [])"
  using SetupConnections_skips_empty_remove
    [where E = fresh_engine and xs = "[]" and ys = "[]" and c = None and h = "[]"]
  by (simp add: SetupConnections_def fresh_engine_def opt_list_def)

section \<open>The scheduler without a runnable service\<close>

lemma run_pass_all_blocked:
  "\<forall>(name, svc) \<in> set xs. cantRun (ranServices st) svc
     \<Longrightarrow> run_pass E job run xs st acc = (None, st, acc @ xs)"
  by (induction xs arbitrary: acc) auto

text \<open>
  C2 (as amended). When every service still to run has a dependency that has not run,
  a pass runs no service, reports no error and leaves the set and the state as they
  were, so the next pass meets the same set: \<open>ServiceSetup\<close> never returns, whatever
  the number of passes it is given, and no \<open>DeadlockedGraph\<close> error is ever raised.
\<close>

theorem service_passes_deadlock:
  assumes "fair_range E" and "services \<noteq> []"
    and "\<forall>(name, svc) \<in> set services. cantRun (ranServices st) svc"
  shows "service_passes fuel E job run services st = (OutOfFuel, st)"
  using assms(2,3)
proof (induction fuel arbitrary: services)
  case 0
  then show ?case by (cases services) auto
next
  case (Suc fuel)
  obtain x xs where sv: "services = x # xs" using Suc.prems(1) by (cases services) auto
  let ?ys = "range_services E (history st) services"
  have set: "set ?ys = set services" using assms(1) by (simp add: fair_range_def)
  then have ne: "?ys \<noteq> []" using Suc.prems(1) by auto
  have blocked: "\<forall>(name, svc) \<in> set ?ys. cantRun (ranServices st) svc"
    using Suc.prems(2) set by simp
  have "run_pass E job run ?ys st [] = (None, st, ?ys)"
    using run_pass_all_blocked [OF blocked, of E job run "[]"] by simp
  then show ?case
    using Suc.IH [OF ne blocked] sv by simp
qed

theorem service_passes_deadlock_witness:
  "service_passes 7 fresh_engine ''j'' ''r'' [(''a'', needs [''b'']), (''b'', needs [''a''])]
     \<lparr>ranServices = [], createdNetworks = {}, history = []\<rparr>
   = (OutOfFuel, \<lparr>ranServices = [], createdNetworks = {}, history = []\<rparr>)"
proof -
  have "fair_range fresh_engine" by (simp add: fair_range_def fresh_engine_def)
  moreover have "\<forall>(name, svc) \<in> set [(''a'', needs [''b'']), (''b'', needs [''a''])].
      cantRun (ranServices \<lparr>ranServices = [], createdNetworks = {}, history = []\<rparr>) svc"
    by (simp add: cantRun_def needs_def depends_on_def)
  ultimately show ?thesis
    using service_passes_deadlock [of fresh_engine "[(''a'', needs [''b'']), (''b'', needs [''a''])]"
        "\<lparr>ranServices = [], createdNetworks = {}, history = []\<rparr>" 7 "''j''" "''r''"]
    by simp
qed

text \<open>
  C2 (as stated) fails on two services that wait for each other: after three passes
  \<open>ServiceSetup\<close> has neither failed nor returned, and has called nothing.
\<close>

theorem ServiceSetup_deadlock_counterexample:
  "ServiceSetup 3 fresh_engine ''j'' ''r''
     (manifest [(''a'', needs [''b'']), (''b'', needs [''a''])]) [] = (OutOfFuel, [])"
  by (simp add: ServiceSetup_def manifest_def fresh_engine_def cantRun_def needs_def
      depends_on_def numeral_3_eq_3)

section \<open>The cycle check finds every cycle\<close>

lemma dep_edges_iff:
  "(u, d) \<in> set (dep_edges S) \<longleftrightarrow>
     u \<in> fst ` set S \<and> d \<in> set (depends_on (lookup_service S u)) \<and> map_of S d \<noteq> None"
  by (auto simp: dep_edges_def)

lemma closed_reach:
  assumes "closed_visited S ds" and "state ds w = Visited" and "(w, x) \<in> (set (dep_edges S))\<^sup>*"
  shows "state ds x = Visited"
  using assms(3,1,2)
  by (induction rule: rtrancl_induct) (auto simp: closed_visited_def)

lemma dfs_post_trans: "dfs_post S a b \<Longrightarrow> dfs_post S b c \<Longrightarrow> dfs_post S a c"
  by (auto simp: dfs_post_def)

lemma dfs_post_refl: "dfs_post S a a"
  by (simp add: dfs_post_def)

lemma dfs_post_parent: "dfs_post S (ds\<lparr>parent := p\<rparr>) r \<Longrightarrow> dfs_post S ds r"
  by (simp add: dfs_post_def closed_visited_def)

lemma finish_node:
  assumes unv: "state ds node = Unvisited"
    and post: "dfs_post S (ds\<lparr>state := (state ds)(node := Visiting)\<rparr>) ds'"
    and deps: "\<forall>d \<in> set (depends_on (lookup_service S node)). map_of S d \<noteq> None \<longrightarrow> state ds' d = Visited"
  shows "dfs_post S ds (ds'\<lparr>state := (state ds')(node := Visited)\<rparr>)"
proof -
  let ?ds1 = "ds\<lparr>state := (state ds)(node := Visiting)\<rparr>"
  let ?r = "ds'\<lparr>state := (state ds')(node := Visited)\<rparr>"
  have ving: "state ds' node = Visiting" using post by (simp add: dfs_post_def)
  have a: "\<forall>k. (state ?r k = Visiting) = (state ds k = Visiting)"
    using post unv by (auto simp: dfs_post_def)
  have b: "\<forall>k. state ds k = Visited \<longrightarrow> state ?r k = Visited"
    using post unv by (auto simp: dfs_post_def)
  have c: "closed_visited S ?r" if cl: "closed_visited S ds"
  proof -
    have "closed_visited S ?ds1" using cl unv by (auto simp: closed_visited_def)
    then have cl': "closed_visited S ds'" using post by (simp add: dfs_post_def)
    have succ: "state ds' d = Visited" if "(node, d) \<in> set (dep_edges S)" for d
      using that deps by (simp add: dep_edges_iff)
    have c1: "state ?r d = Visited" if "state ?r u = Visited" "(u, d) \<in> set (dep_edges S)" for u d
    proof (cases "u = node")
      case True
      then show ?thesis using succ that by simp
    next
      case False
      then have "state ds' u = Visited" using that by simp
      then have "state ds' d = Visited" using cl' that(2) by (auto simp: closed_visited_def)
      then show ?thesis by simp
    qed
    have c2: "(u, u) \<notin> (set (dep_edges S))\<^sup>+" if "state ?r u = Visited" for u
    proof (cases "u = node")
      case True
      show ?thesis
      proof
        assume "(u, u) \<in> (set (dep_edges S))\<^sup>+"
        then obtain w where w: "(node, w) \<in> set (dep_edges S)" "(w, node) \<in> (set (dep_edges S))\<^sup>*"
          using True by (auto dest: tranclD)
        have "state ds' w = Visited" using succ w(1) by simp
        then have "state ds' node = Visited" using closed_reach [OF cl' _ w(2)] by simp
        then show False using ving by simp
      qed
    next
      case False
      then have "state ds' u = Visited" using that by simp
      then show ?thesis using cl' by (simp add: closed_visited_def)
    qed
    show ?thesis unfolding closed_visited_def using c1 c2 by blast
  qed
  show ?thesis unfolding dfs_post_def using a b c by blast
qed

lemma dfs_correct:
  "dfs S node ds = Inr r \<Longrightarrow> dfs_post S ds r \<and> state r node = Visited"
  "dfs_deps S node deps ds = Inr r \<Longrightarrow>
     dfs_post S ds r \<and> (\<forall>d \<in> set deps. map_of S d \<noteq> None \<longrightarrow> state r d = Visited)"
proof (induction S node ds and S node deps ds arbitrary: r and r rule: dfs_dfs_deps.induct)
  case (1 S node ds)
  show ?case
  proof (cases "state ds node")
    case Unvisited
    then obtain ds' where d: "dfs_deps S node (depends_on (lookup_service S node))
        (ds\<lparr>state := (state ds)(node := Visiting)\<rparr>) = Inr ds'"
      and r: "r = ds'\<lparr>state := (state ds')(node := Visited)\<rparr>"
      using "1.prems" by (auto split: sum.splits)
    have "dfs_post S ds r"
      unfolding r using "1.IH" [OF Unvisited d] Unvisited by (intro finish_node) auto
    then show ?thesis using r by simp
  next
    case Visiting
    then show ?thesis using "1.prems" by simp
  next
    case Visited
    then show ?thesis using "1.prems" by (simp add: dfs_post_refl)
  qed
next
  case (2 S node ds)
  then show ?case by (simp add: dfs_post_refl)
next
  case (3 S node dep rest ds)
  show ?case
  proof (cases "map_of S dep = None")
    case True
    then show ?thesis using "3.prems" "3.IH"(1) by auto
  next
    case False
    let ?ds1 = "if map_of (parent ds) dep = None then ds\<lparr>parent := parent ds @ [(dep, node)]\<rparr> else ds"
    obtain ds' where d: "dfs S dep ?ds1 = Inr ds'" and r: "dfs_deps S node rest ds' = Inr r"
      using "3.prems" False by (auto split: sum.splits)
    have p1: "dfs_post S ?ds1 ds'" and v: "state ds' dep = Visited"
      using "3.IH"(2) [OF False d] by auto
    have p1': "dfs_post S ds ds'"
      using p1 by (auto intro: dfs_post_parent split: if_splits)
    have p2: "dfs_post S ds' r"
      and rest: "\<forall>d \<in> set rest. map_of S d \<noteq> None \<longrightarrow> state r d = Visited"
      using "3.IH"(3) [OF False d r] by auto
    have "state r dep = Visited" using v p2 by (simp add: dfs_post_def)
    then show ?thesis using dfs_post_trans [OF p1' p2] rest by auto
  qed
qed

lemma check_roots_correct:
  "check_roots S nodes ds = None \<Longrightarrow> closed_visited S ds \<Longrightarrow> \<forall>k. state ds k \<noteq> Visiting
     \<Longrightarrow> \<exists>r. closed_visited S r \<and> (\<forall>k. state ds k = Visited \<longrightarrow> state r k = Visited)
           \<and> (\<forall>k \<in> set nodes. state r k = Visited)"
proof (induction nodes arbitrary: ds)
  case Nil
  then show ?case by auto
next
  case (Cons node nodes)
  show ?case
  proof (cases "state ds node = Unvisited")
    case True
    then obtain ds' where d: "dfs S node ds = Inr ds'" and c: "check_roots S nodes ds' = None"
      using Cons.prems(1) by (auto split: sum.splits)
    have post: "dfs_post S ds ds'" and v: "state ds' node = Visited"
      using dfs_correct(1) [OF d] by auto
    have cl: "closed_visited S ds'" and nv: "\<forall>k. state ds' k \<noteq> Visiting"
      and mono: "\<forall>k. state ds k = Visited \<longrightarrow> state ds' k = Visited"
      using post Cons.prems(2,3) by (auto simp: dfs_post_def)
    obtain r where r: "closed_visited S r" "\<forall>k. state ds' k = Visited \<longrightarrow> state r k = Visited"
        "\<forall>k \<in> set nodes. state r k = Visited"
      using Cons.IH [OF c cl nv] by blast
    show ?thesis using r v mono by auto
  next
    case False
    then have v: "state ds node = Visited"
      using Cons.prems(3) by (cases "state ds node") auto
    have c: "check_roots S nodes ds = None" using Cons.prems(1) False by simp
    obtain r where r: "closed_visited S r" "\<forall>k. state ds k = Visited \<longrightarrow> state r k = Visited"
        "\<forall>k \<in> set nodes. state r k = Visited"
      using Cons.IH [OF c Cons.prems(2,3)] by blast
    show ?thesis using r v by auto
  qed
qed

lemma CheckCircularDependencies_complete:
  assumes "has_cycle S"
  shows "CheckCircularDependencies S \<noteq> None"
proof
  assume ok: "CheckCircularDependencies S = None"
  let ?ds = "\<lparr>state = (\<lambda>_. Unvisited), parent = []\<rparr>"
  have "closed_visited S ?ds" and "\<forall>k. state ?ds k \<noteq> Visiting"
    by (simp_all add: closed_visited_def)
  then obtain r where r: "closed_visited S r" "\<forall>k \<in> set (map fst S). state r k = Visited"
    using check_roots_correct [of S "map fst S" ?ds] ok
    unfolding CheckCircularDependencies_def by blast
  obtain a where a: "a \<in> set (map fst S)" "(a, a) \<in> (set (dep_edges S))\<^sup>+"
    using assms by (auto simp: has_cycle_def)
  have "state r a = Visited" using r(2) a(1) by blast
  then show False using r(1) a(2) by (simp add: closed_visited_def)
qed

lemma declare_volumes_rejects:
  "(\<exists>v \<in> set vs. TrimSpace v = []) \<or> \<not> distinct (map TrimSpace vs)
     \<or> (\<exists>v \<in> set vs. TrimSpace v \<in> declared)
   \<Longrightarrow> \<exists>err. declare_volumes vs declared = Inl err"
proof (induction vs arbitrary: declared)
  case Nil
  then show ?case by simp
next
  case (Cons v vs)
  show ?case
  proof (cases "TrimSpace v = [] \<or> TrimSpace v \<in> declared")
    case True
    then show ?thesis by (auto simp: Let_def)
  next
    case False
    then have "(\<exists>w \<in> set vs. TrimSpace w = []) \<or> \<not> distinct (map TrimSpace vs)
        \<or> (\<exists>w \<in> set vs. TrimSpace w \<in> insert (TrimSpace v) declared)"
      using Cons.prems by auto
    then have "\<exists>err. declare_volumes vs (insert (TrimSpace v) declared) = Inl err"
      by (rule Cons.IH)
    then show ?thesis using False by (simp add: Let_def)
  qed
qed

lemma DeclaredVolumeSet_rejects:
  assumes "(\<exists>v \<in> set vols. TrimSpace v = []) \<or> \<not> distinct vols"
  shows "\<exists>err. DeclaredVolumeSet (Some vols) = Inl err"
proof -
  have "\<not> distinct vols \<Longrightarrow> \<not> distinct (map TrimSpace vols)"
    by (auto simp: distinct_map)
  then show ?thesis
    using assms declare_volumes_rejects [of vols "{}"] by (auto simp: DeclaredVolumeSet_def)
qed

lemma CheckMetadata_early:
  assumes "md_Services md \<noteq> []"
    and "CheckCircularDependencies (md_Services md) \<noteq> None
         \<or> (\<exists>err. DeclaredVolumeSet (md_Volumes md) = Inl err)"
  shows "\<exists>err. CheckMetadata E job (Some md) h = (Some err, h)"
  using assms
  by (auto simp: CheckMetadata_def CheckVolumes_def split: option.splits sum.splits)

text \<open>
  C3. A setup run on a manifest whose dependency graph has a cycle returns an error, and
  its history is empty: no call at all has reached the engine or the agent, so no
  volume, network or container has been created, removed or started.
\<close>

theorem Run_rejects_cycle:
  assumes "cfg_Action config \<noteq> ''teardown''" and "cfg_Metadata config = Some md"
    and "has_cycle (md_Services md)"
  shows "\<exists>err. Run fuel E config = (Returned (Some err), [])"
proof -
  have ne: "md_Services md \<noteq> []" using assms(3) by (auto simp: has_cycle_def)
  obtain err where "CheckMetadata E (cfg_Job config) (Some md) [] = (Some err, [])"
    using CheckMetadata_early [OF ne] CheckCircularDependencies_complete [OF assms(3)] by blast
  then show ?thesis using assms(1,2) by (simp add: Run_def)
qed

theorem Run_rejects_cycle_witness:
  "has_cycle [(''a'', needs [''b'']), (''b'', needs [''c'']), (''c'', needs [''a''])]
   \<and> (\<exists>err. Run 9 fresh_engine
         (setup_of (manifest [(''a'', needs [''b'']), (''b'', needs [''c'']), (''c'', needs [''a''])]))
       = (Returned (Some err), []))"
proof -
  let ?S = "[(''a'', needs [''b'']), (''b'', needs [''c'']), (''c'', needs [''a''])]"
  have e: "set (dep_edges ?S) = {(''a'', ''b''), (''b'', ''c''), (''c'', ''a'')}"
    by (auto simp: dep_edges_def lookup_service_def depends_on_def needs_def)
  have "(''a'', ''a'') \<in> (set (dep_edges ?S))\<^sup>+"
    unfolding e
    by (meson insertI1 insertI2 trancl.r_into_trancl trancl.trancl_into_trancl)
  then have c: "has_cycle ?S" by (auto simp: has_cycle_def)
  have "cfg_Action (setup_of (manifest ?S)) \<noteq> ''teardown''"
    and "cfg_Metadata (setup_of (manifest ?S)) = Some (manifest ?S)"
    and "md_Services (manifest ?S) = ?S"
    by (simp_all add: setup_of_def manifest_def)
  then show ?thesis
    using c Run_rejects_cycle [of "setup_of (manifest ?S)" "manifest ?S" 9 fresh_engine] by simp
qed

section \<open>The declared volumes\<close>

text \<open>
  C7 (as amended). A setup run on a manifest with at least one service, whose list of
  volumes holds a name twice or a name that is empty or all whitespace, returns an error,
  and its history is empty: no volume has been provisioned.
\<close>

theorem Run_rejects_bad_volumes:
  assumes "cfg_Action config \<noteq> ''teardown''" and "cfg_Metadata config = Some md"
    and "md_Services md \<noteq> []" and "md_Volumes md = Some vols"
    and "(\<exists>v \<in> set vols. TrimSpace v = []) \<or> \<not> distinct vols"
  shows "\<exists>err. Run fuel E config = (Returned (Some err), [])"
proof -
  obtain err where "CheckMetadata E (cfg_Job config) (Some md) [] = (Some err, [])"
    using CheckMetadata_early [OF assms(3)] DeclaredVolumeSet_rejects [OF assms(5)] assms(4)
    by metis
  then show ?thesis using assms(1,2) by (simp add: Run_def)
qed

theorem Run_rejects_bad_volumes_witness:
  "TrimSpace [CHR 0xC2, CHR 0xA0, CHR 0x09] = []
   \<and> (\<exists>err. Run 9 fresh_engine
         (setup_of ((manifest [(''db'', needs [])])
            \<lparr>md_Volumes := Some [''data'', [CHR 0xC2, CHR 0xA0, CHR 0x09]]\<rparr>))
       = (Returned (Some err), []))
   \<and> \<not> distinct [''data'', ''data'']
   \<and> (\<exists>err. Run 9 fresh_engine
         (setup_of ((manifest [(''db'', needs [])])\<lparr>md_Volumes := Some [''data'', ''data'']\<rparr>))
       = (Returned (Some err), []))"
proof -
  let ?blank = "[CHR 0xC2, CHR 0xA0, CHR 0x09]"
  let ?md = "\<lambda>vols. (manifest [(''db'', needs [])])\<lparr>md_Volumes := Some vols\<rparr>"
  have facts: "cfg_Action (setup_of (?md vols)) \<noteq> ''teardown''"
    "cfg_Metadata (setup_of (?md vols)) = Some (?md vols)"
    "md_Services (?md vols) \<noteq> []" "md_Volumes (?md vols) = Some vols" for vols
    by (simp_all add: setup_of_def manifest_def)
  have blank: "TrimSpace ?blank = []" by code_simp
  then have "(\<exists>v \<in> set [''data'', ?blank]. TrimSpace v = []) \<or> \<not> distinct [''data'', ?blank]"
    by simp
  then have 1: "\<exists>err. Run 9 fresh_engine (setup_of (?md [''data'', ?blank])) = (Returned (Some err), [])"
    by (rule Run_rejects_bad_volumes [OF facts])
  have "(\<exists>v \<in> set [''data'', ''data'']. TrimSpace v = []) \<or> \<not> distinct [''data'', ''data'']"
    by simp
  then have 2: "\<exists>err. Run 9 fresh_engine (setup_of (?md [''data'', ''data''])) = (Returned (Some err), [])"
    by (rule Run_rejects_bad_volumes [OF facts])
  show ?thesis using blank 1 2 by simp
qed

text \<open>
  With no service in the manifest, \<open>CheckMetadata\<close> checks nothing: whatever the list of
  volumes holds, it returns no error.
\<close>

lemma CheckMetadata_no_services:
  "md_Services md = [] \<Longrightarrow> CheckMetadata E job (Some md) h = (None, h)"
  by (simp add: CheckMetadata_def)

text \<open>
  C7 (as stated) fails on a manifest without services: the list of volumes is not
  checked, the run succeeds, and the volumes of the list are created, the empty name
  included.
\<close>

theorem Run_unchecked_volumes_counterexample:
  "Run 9 fresh_engine (setup_of ((manifest [])\<lparr>md_Volumes := Some ['' '', ''data'', ''data'']\<rparr>))
   = (Returned None,
      [VolumeInspect ''dc-j-'', VolumeCreate ''dc-j-'' (volume_labels ''j'' ''r'' '' ''),
       VolumeInspect ''dc-j-data'', VolumeCreate ''dc-j-data'' (volume_labels ''j'' ''r'' ''data''),
       VolumeInspect ''dc-j-data'', VolumeCreate ''dc-j-data'' (volume_labels ''j'' ''r'' ''data'')])"
  by code_simp

section \<open>The text of the cycle error\<close>

text \<open>
  C8. For the two services \<open>a\<close> and \<open>b\<close> that depend on each other, validation fails
  in either order of the map. When \<open>range\<close> yields \<open>a\<close> first the text holds
  \<open>"a" -> "b" -> "a"\<close>; when it yields \<open>b\<close> first the cycle is reported from \<open>b\<close>, as
  \<open>"b" -> "a" -> "b"\<close>, and the text does not hold \<open>"a" -> "b" -> "a"\<close>. The run
  makes no call in either case.
\<close>

theorem cycle_text_follows_map_order:
  "Run 9 fresh_engine (setup_of (manifest [(''b'', needs [''a'']), (''a'', needs [''b''])]))
     = (Returned (Some (''circular dependency detected: '' @ join_arrow [''b'', ''a'', ''b''])), [])
   \<and> \<not> Contains (''circular dependency detected: '' @ join_arrow [''b'', ''a'', ''b''])
           (join_arrow [''a'', ''b'', ''a''])
   \<and> Run 9 fresh_engine (setup_of (manifest [(''a'', needs [''b'']), (''b'', needs [''a''])]))
     = (Returned (Some (''circular dependency detected: '' @ join_arrow [''a'', ''b'', ''a''])), [])
   \<and> Contains (''circular dependency detected: '' @ join_arrow [''a'', ''b'', ''a''])
         (join_arrow [''a'', ''b'', ''a''])"
  by code_simp

section \<open>Teardown of the services\<close>

lemma add_name_set: "set (add_name n names) = insert n (set names)"
  by (auto simp: add_name_def)

lemma fold_names_set:
  "set (foldl (\<lambda>acc n. if n \<noteq> [] then add_name n acc else acc) acc ns)
     = set acc \<union> {n \<in> set ns. n \<noteq> []}"
proof (induction ns arbitrary: acc)
  case Nil
  show ?case by simp
next
  case (Cons n ns)
  show ?case
  proof (cases "n = []")
    case True
    then show ?thesis using Cons.IH [of acc] by auto
  next
    case False
    then show ?thesis using Cons.IH [of "add_name n acc"] by (auto simp: add_name_set)
  qed
qed

lemma label_names_set:
  "set (label_names E label acc) = set acc \<union> set (label_names E label [])"
proof (cases label)
  case None
  then show ?thesis by (simp add: label_names_def)
next
  case (Some v)
  show ?thesis
  proof (cases "Unmarshal_names E v")
    case None
    then show ?thesis using Some by (simp add: label_names_def)
  next
    case (Some ns)
    then show ?thesis
      using \<open>label = Some v\<close> fold_names_set [of acc ns] fold_names_set [of "[]" ns]
      by (simp add: label_names_def)
  qed
qed

lemma teardown_containers_agent:
  "teardown_containers (E\<lparr>agent_answer := f\<rparr>) cs acc h = teardown_containers E cs acc h"
proof (induction cs arbitrary: acc h)
  case Nil
  show ?case by simp
next
  case (Cons c cs)
  have l: "label_names (E\<lparr>agent_answer := f\<rparr>) l a = label_names E l a" for l a
    by (cases l) (simp_all add: label_names_def)
  show ?case by (simp add: Let_def l Cons.IH split: sum.splits option.splits)
qed

lemma labels_kept_step:
  assumes "labels_kept E (h @ [e]) h' names" and "h' = h @ e # tail"
    and "\<And>cID ic. e = ContainerInspect cID \<Longrightarrow> inspected E (h @ [e]) = Inr ic
           \<Longrightarrow> set (label_names E (ic_ResourcesLabel ic) []) \<subseteq> set names"
  shows "labels_kept E h h' names"
  unfolding labels_kept_def
proof (intro allI impI, elim conjE)
  fix hp rest cID ic
  assume d: "h' = h @ hp @ ContainerInspect cID # rest"
    and a: "inspected E (h @ hp @ [ContainerInspect cID]) = Inr ic"
  show "set (label_names E (ic_ResourcesLabel ic) []) \<subseteq> set names"
  proof (cases hp)
    case Nil
    then have "e = ContainerInspect cID" using d assms(2) by simp
    then show ?thesis using assms(3) a Nil by simp
  next
    case (Cons e' hp')
    then have "e' = e" using d assms(2) by simp
    then have "h' = (h @ [e]) @ hp' @ ContainerInspect cID # rest"
      and "inspected E ((h @ [e]) @ hp' @ [ContainerInspect cID]) = Inr ic"
      using d a Cons by simp_all
    then show ?thesis using assms(1) unfolding labels_kept_def by blast
  qed
qed

lemma labels_kept_end: "labels_kept E h h names"
  by (simp add: labels_kept_def)

lemma teardown_containers_collects:
  "teardown_containers E cs acc h = (None, names, h') \<Longrightarrow>
     set acc \<subseteq> set names \<and> (\<exists>evs. h' = h @ evs) \<and> labels_kept E h h' names"
proof (induction cs arbitrary: acc h)
  case Nil
  then show ?case by (simp add: labels_kept_end)
next
  case (Cons c cs)
  let ?h1 = "h @ [ContainerInspect c]"
  show ?case
  proof (cases "inspected E ?h1")
    case (Inl err)
    then have rec: "teardown_containers E cs acc ?h1 = (None, names, h')"
      using Cons.prems by (simp add: Let_def split: if_splits)
    obtain evs where ih: "set acc \<subseteq> set names" "h' = ?h1 @ evs" "labels_kept E ?h1 h' names"
      using Cons.IH [OF rec] by blast
    have "labels_kept E h h' names"
      using ih(3)
    proof (rule labels_kept_step)
      show "h' = h @ ContainerInspect c # evs" using ih(2) by simp
    next
      fix cID ic
      assume "inspected E (h @ [ContainerInspect c]) = Inr ic"
      then show "set (label_names E (ic_ResourcesLabel ic) []) \<subseteq> set names"
        using Inl by simp
    qed
    then show ?thesis using ih(1,2) by simp
  next
    case (Inr ic0)
    let ?names0 = "label_names E (ic_ResourcesLabel ic0) acc"
    let ?h2 = "?h1 @ [ContainerStop c]"
    let ?h3 = "?h2 @ [ContainerRemove c]"
    have rec: "teardown_containers E cs ?names0 ?h3 = (None, names, h')"
      using Cons.prems Inr by (simp add: Let_def split: option.splits if_splits)
    obtain evs where ih: "set ?names0 \<subseteq> set names" "h' = ?h3 @ evs" "labels_kept E ?h3 h' names"
      using Cons.IH [OF rec] by blast
    have sub: "set acc \<subseteq> set names" "set (label_names E (ic_ResourcesLabel ic0) []) \<subseteq> set names"
      using ih(1) label_names_set [of E "ic_ResourcesLabel ic0" acc] by auto
    have k2: "labels_kept E ?h2 h' names"
      using ih(3) by (rule labels_kept_step [where tail = evs]) (simp_all add: ih(2))
    have k1: "labels_kept E ?h1 h' names"
      using k2 by (rule labels_kept_step [where tail = "ContainerRemove c # evs"]) (simp_all add: ih(2))
    have "labels_kept E h h' names"
      using k1
    proof (rule labels_kept_step)
      show "h' = h @ ContainerInspect c # ContainerStop c # ContainerRemove c # evs"
        using ih(2) by simp
    next
      fix cID ic
      assume "inspected E (h @ [ContainerInspect c]) = Inr ic"
      then show "set (label_names E (ic_ResourcesLabel ic) []) \<subseteq> set names"
        using Inr sub(2) by simp
    qed
    then show ?thesis using sub(1) ih(2) by simp
  qed
qed

text \<open>
  C9 (as amended). With an agent client present, once the loop over the job's containers
  has ended without error, \<open>TearDownServices\<close> succeeds and its history is that of the
  loop followed by one \<open>DeleteResourceByName\<close> call for each name collected; the names
  collected include every name in the label of resources of every container inspected;
  and the result is the same whatever the agent answers to those calls.
\<close>

theorem TearDownServices_deletes_collected:
  assumes "comm_present E"
    and "h1 = h @ [ContainerList (job_filter job)]"
    and "listed_containers E h1 = Inr containers"
    and "teardown_containers E containers [] h1 = (None, names, h')"
  shows "TearDownServices E job h = (None, h' @ map AgentDeleteResourceByName names)
    \<and> (\<forall>f. TearDownServices (E\<lparr>agent_answer := f\<rparr>) job h
            = (None, h' @ map AgentDeleteResourceByName names))
    \<and> (\<forall>hp rest cID ic n.
          h' = h1 @ hp @ ContainerInspect cID # rest
          \<and> inspected E (h1 @ hp @ [ContainerInspect cID]) = Inr ic
          \<and> n \<in> set (label_names E (ic_ResourcesLabel ic) [])
          \<longrightarrow> n \<in> set names)"
proof -
  have r: "TearDownServices E job h = (None, h' @ map AgentDeleteResourceByName names)"
    using assms by (simp add: TearDownServices_def delete_resources_def)
  have a: "TearDownServices (E\<lparr>agent_answer := f\<rparr>) job h
      = (None, h' @ map AgentDeleteResourceByName names)" for f
    using assms by (simp add: TearDownServices_def delete_resources_def teardown_containers_agent)
  have k: "labels_kept E h1 h' names"
    using teardown_containers_collects [OF assms(4)] by simp
  have c: "\<forall>hp rest cID ic n.
          h' = h1 @ hp @ ContainerInspect cID # rest
          \<and> inspected E (h1 @ hp @ [ContainerInspect cID]) = Inr ic
          \<and> n \<in> set (label_names E (ic_ResourcesLabel ic) [])
          \<longrightarrow> n \<in> set names"
    using k unfolding labels_kept_def by blast
  show ?thesis
  proof (intro conjI)
    show "TearDownServices E job h = (None, h' @ map AgentDeleteResourceByName names)"
      by (rule r)
    show "\<forall>f. TearDownServices (E\<lparr>agent_answer := f\<rparr>) job h
            = (None, h' @ map AgentDeleteResourceByName names)"
      by (intro allI a)
    show "\<forall>hp rest cID ic n.
          h' = h1 @ hp @ ContainerInspect cID # rest
          \<and> inspected E (h1 @ hp @ [ContainerInspect cID]) = Inr ic
          \<and> n \<in> set (label_names E (ic_ResourcesLabel ic) [])
          \<longrightarrow> n \<in> set names"
      by (rule c)
  qed
qed


theorem TearDownServices_deletes_collected_witness:
  "TearDownServices labelled_engine ''j'' []
   = (None, [ContainerList (job_filter ''j''), ContainerInspect ''c1'', ContainerStop ''c1'',
             ContainerRemove ''c1'', AgentDeleteResourceByName ''main''])"
proof -
  have a1: "comm_present labelled_engine"
    by (simp add: labelled_engine_def fresh_engine_def)
  have a3: "listed_containers labelled_engine [ContainerList (job_filter ''j'')] = Inr [''c1'']"
    by (simp add: labelled_engine_def fresh_engine_def)
  have a4: "teardown_containers labelled_engine [''c1''] [] [ContainerList (job_filter ''j'')]
      = (None, [''main''],
         [ContainerList (job_filter ''j''), ContainerInspect ''c1'', ContainerStop ''c1'',
          ContainerRemove ''c1''])"
    by code_simp
  show ?thesis
    using TearDownServices_deletes_collected [OF a1 _ a3 a4, of "[]" "''j''"] by simp
qed

text \<open>
  C9 (as stated) fails when \<open>p.comm\<close> is nil: the name \<open>main\<close> is collected from the
  label of \<open>c1\<close>, the container is removed, and no \<open>DeleteResourceByName\<close> call follows.
\<close>

theorem TearDownServices_no_agent_counterexample:
  "teardown_containers (labelled_engine\<lparr>comm_present := False\<rparr>) [''c1''] []
       [ContainerList (job_filter ''j'')]
     = (None, [''main''],
        [ContainerList (job_filter ''j''), ContainerInspect ''c1'', ContainerStop ''c1'',
         ContainerRemove ''c1''])
   \<and> TearDownServices (labelled_engine\<lparr>comm_present := False\<rparr>) ''j'' []
     = (None, [ContainerList (job_filter ''j''), ContainerInspect ''c1'', ContainerStop ''c1'',
               ContainerRemove ''c1''])"
  by code_simp

section \<open>The phases of SetupService\<close>

lemma extends_refl: "extends Q s s"
  by (simp add: extends_def)

lemma extends_trans: "extends Q a b \<Longrightarrow> extends Q b c \<Longrightarrow> extends Q a c"
  by (auto simp: extends_def)

lemma extends_weaken: "extends Q a b \<Longrightarrow> (\<And>e. Q e \<Longrightarrow> R e) \<Longrightarrow> extends R a b"
  by (auto simp: extends_def list_all_iff)

lemma extends_same: "ss_history b = ss_history a \<Longrightarrow> extends Q a b"
  by (simp add: extends_def)

lemma extends_one: "ss_history b = ss_history a @ [e] \<Longrightarrow> Q e \<Longrightarrow> extends Q a b"
  by (simp add: extends_def)

lemma extends_hist: "extends Q a b \<Longrightarrow> ss_history c = ss_history b \<Longrightarrow> extends Q a c"
  by (simp add: extends_def)

lemma grows_refl: "grows s s"
  by (simp add: grows_def)

lemma grows_trans: "grows a b \<Longrightarrow> grows b c \<Longrightarrow> grows a c"
  by (auto simp: grows_def)

lemma ensure_network_step:
  assumes "ensure_network E n l s = (r, s')"
  shows "extends (\<lambda>e. e = NetworkInspect n \<or> e = NetworkCreate n l) s s'"
    and "ss_createdNetworks s \<subseteq> ss_createdNetworks s'"
    and "ss_createdNetworks s' \<subseteq> insert n (ss_createdNetworks s)"
    and "r = None \<Longrightarrow> n \<in> ss_createdNetworks s'"
    and "ss_networks s' = ss_networks s" and "ss_resources s' = ss_resources s"
    and "ss_resourceNames s' = ss_resourceNames s"
proof -
  have "extends (\<lambda>e. e = NetworkInspect n \<or> e = NetworkCreate n l) s s'
    \<and> ss_createdNetworks s \<subseteq> ss_createdNetworks s'
    \<and> ss_createdNetworks s' \<subseteq> insert n (ss_createdNetworks s)
    \<and> (r = None \<longrightarrow> n \<in> ss_createdNetworks s')
    \<and> ss_networks s' = ss_networks s \<and> ss_resources s' = ss_resources s
    \<and> ss_resourceNames s' = ss_resourceNames s"
    using assms
    by (auto simp: ensure_network_def Let_def extends_def split: if_splits option.splits)
  then show "extends (\<lambda>e. e = NetworkInspect n \<or> e = NetworkCreate n l) s s'"
    and "ss_createdNetworks s \<subseteq> ss_createdNetworks s'"
    and "ss_createdNetworks s' \<subseteq> insert n (ss_createdNetworks s)"
    and "r = None \<Longrightarrow> n \<in> ss_createdNetworks s'"
    and "ss_networks s' = ss_networks s" and "ss_resources s' = ss_resources s"
    and "ss_resourceNames s' = ss_resourceNames s"
    by simp_all
qed

lemma network_groups_step:
  "network_groups E job run groups s = (r, s') \<Longrightarrow>
     extends (\<lambda>e. \<exists>g \<in> set groups. e = NetworkInspect (DockerNetworkName job g)
                 \<or> e = NetworkCreate (DockerNetworkName job g) (group_labels job run g)) s s'
     \<and> grows s s' \<and> ss_resources s' = ss_resources s"
proof (induction groups arbitrary: s)
  case Nil
  then show ?case by (simp add: extends_refl grows_refl)
next
  case (Cons g groups)
  let ?n = "DockerNetworkName job g"
  let ?Q = "\<lambda>gs e. \<exists>g \<in> set gs. e = NetworkInspect (DockerNetworkName job g)
                 \<or> e = NetworkCreate (DockerNetworkName job g) (group_labels job run g)"
  obtain r1 s1 where e: "ensure_network E ?n (group_labels job run g) s = (r1, s1)"
    by (cases "ensure_network E ?n (group_labels job run g) s") auto
  have x1: "extends (?Q (g # groups)) s s1"
    using ensure_network_step(1) [OF e] by (rule extends_weaken) auto
  have g1: "grows s s1" and rs1: "ss_resources s1 = ss_resources s"
    using ensure_network_step(2,5,6) [OF e] by (simp_all add: grows_def)
  show ?case
  proof (cases r1)
    case (Some err)
    then have "s' = s1" using Cons.prems e by (simp add: Let_def)
    then show ?thesis using x1 g1 rs1 by simp
  next
    case None
    let ?s2 = "s1\<lparr>ss_networks := insert ?n (ss_networks s1)\<rparr>"
    have rec: "network_groups E job run groups ?s2 = (r, s')"
      using Cons.prems e None by (simp add: Let_def)
    have ih: "extends (?Q groups) ?s2 s'" "grows ?s2 s'" "ss_resources s' = ss_resources ?s2"
      using Cons.IH [OF rec] by auto
    have ih1: "extends (?Q (g # groups)) ?s2 s'"
      using ih(1) by (rule extends_weaken) auto
    have "extends (?Q (g # groups)) s ?s2" using x1 by (rule extends_hist) simp
    then have "extends (?Q (g # groups)) s s'" using ih1 by (rule extends_trans)
    moreover have "grows s s'" using g1 ih(2) by (auto simp: grows_def)
    ultimately show ?thesis using ih(3) rs1 by simp
  qed
qed

lemma platform_connections_step:
  "platform_connections E conns s = (r, s') \<Longrightarrow>
     extends (\<lambda>e. \<exists>n \<in> platform_names E conns. n \<noteq> [] \<and> e = NetworkInspect n) s s'
     \<and> ss_createdNetworks s' = ss_createdNetworks s \<and> ss_resources s' = ss_resources s
     \<and> ss_networks s \<subseteq> ss_networks s'
     \<and> ss_networks s' \<subseteq> ss_networks s \<union> platform_names E conns
     \<and> (r = None \<longrightarrow> platform_names E conns \<subseteq> ss_networks s' \<and> [] \<notin> platform_names E conns)"
proof (induction conns arbitrary: s)
  case Nil
  then show ?case by (simp add: extends_refl platform_names_def)
next
  case (Cons c conns)
  let ?Q = "\<lambda>cs e. \<exists>n \<in> platform_names E cs. n \<noteq> [] \<and> e = NetworkInspect n"
  have sub: "platform_names E conns \<subseteq> platform_names E (c # conns)"
    by (auto simp: platform_names_def)
  have weak: "extends (?Q conns) a b \<Longrightarrow> extends (?Q (c # conns)) a b" for a b
    unfolding extends_def list_all_iff using sub by blast
  show ?case
  proof (cases "GetPlatformData c")
    case None
    then have rec: "platform_connections E conns s = (r, s')" using Cons.prems by simp
    have eq: "platform_names E (c # conns) = platform_names E conns"
      using None by (auto simp: platform_names_def)
    show ?thesis using Cons.IH [OF rec] unfolding eq by simp
  next
    case (Some d)
    show ?thesis
    proof (cases "Unmarshal_platform E d")
      case (Inl err)
      then have "s' = s" "r \<noteq> None" using Cons.prems Some by auto
      then show ?thesis by (auto simp: extends_refl)
    next
      case (Inr n)
      have nin: "n \<in> platform_names E (c # conns)"
        using Some Inr by (auto simp: platform_names_def)
      have eq: "platform_names E (c # conns) = insert n (platform_names E conns)"
        using Some Inr by (auto simp: platform_names_def)
      show ?thesis
      proof (cases "n = []")
        case True
        then have "s' = s" "r \<noteq> None" using Cons.prems Some Inr by auto
        then show ?thesis by (auto simp: extends_refl)
      next
        case False
        let ?h1 = "ss_history s @ [NetworkInspect n]"
        show ?thesis
        proof (cases "answer E ?h1")
          case (Some err)
          then have "s' = s\<lparr>ss_history := ?h1\<rparr>" "r \<noteq> None"
            using Cons.prems \<open>GetPlatformData c = Some d\<close> Inr False by (auto simp: Let_def)
          moreover have "extends (?Q (c # conns)) s (s\<lparr>ss_history := ?h1\<rparr>)"
            by (rule extends_one [where e = "NetworkInspect n"]) (use nin False in auto)
          ultimately show ?thesis by auto
        next
          case None
          let ?s1 = "s\<lparr>ss_networks := insert n (ss_networks s), ss_history := ?h1\<rparr>"
          have rec: "platform_connections E conns ?s1 = (r, s')"
            using Cons.prems \<open>GetPlatformData c = Some d\<close> Inr False None by (simp add: Let_def)
          have ih: "extends (?Q conns) ?s1 s'" "ss_createdNetworks s' = ss_createdNetworks ?s1"
            "ss_resources s' = ss_resources ?s1" "ss_networks ?s1 \<subseteq> ss_networks s'"
            "ss_networks s' \<subseteq> ss_networks ?s1 \<union> platform_names E conns"
            "r = None \<longrightarrow> platform_names E conns \<subseteq> ss_networks s' \<and> [] \<notin> platform_names E conns"
            using Cons.IH [OF rec] by auto
          have "extends (?Q (c # conns)) s ?s1"
            by (rule extends_one [where e = "NetworkInspect n"]) (use nin False in auto)
          then have "extends (?Q (c # conns)) s s'"
            using weak [OF ih(1)] by (rule extends_trans)
          then show ?thesis using ih(2-6) False unfolding eq by auto
        qed
      qed
    qed
  qed
qed

lemma service_resources_runner:
  "service_resources E job run True specs s = (r, s') \<Longrightarrow>
     r = None \<and> s' = s\<lparr>ss_resources := ss_resources s @ map runner_resource specs\<rparr>"
proof (induction specs arbitrary: s)
  case Nil
  then show ?case by simp
next
  case (Cons spec specs)
  let ?s1 = "s\<lparr>ss_resources := ss_resources s @ [runner_resource spec]\<rparr>"
  have "service_resources E job run True specs ?s1 = (r, s')"
    using Cons.prems by (simp add: runner_resource_def)
  from Cons.IH [OF this] show ?case by simp
qed

lemma service_resources_step:
  "service_resources E job run False specs s = (r, s') \<Longrightarrow>
     extends (\<lambda>e. \<exists>x \<in> set specs. e = NetworkInspect (DockerNetworkResourceName job (crs_Name x))
                 \<or> e = NetworkCreate (DockerNetworkResourceName job (crs_Name x))
                       (resource_labels job run (crs_Name x))) s s'
     \<and> grows s s' \<and> set (ss_resources s) \<subseteq> set (ss_resources s')
     \<and> (r = None \<longrightarrow> (\<forall>spec \<in> set specs.
            DockerNetworkResourceName job (crs_Name spec) \<in> ss_createdNetworks s'
            \<and> DockerNetworkResourceName job (crs_Name spec) \<in> ss_networks s'
            \<and> service_resource job spec \<in> set (ss_resources s')))"
proof (induction specs arbitrary: s)
  case Nil
  then show ?case by (simp add: extends_refl grows_refl)
next
  case (Cons spec specs)
  let ?n = "DockerNetworkResourceName job (crs_Name spec)"
  let ?Q = "\<lambda>xs e. \<exists>x \<in> set xs. e = NetworkInspect (DockerNetworkResourceName job (crs_Name x))
                 \<or> e = NetworkCreate (DockerNetworkResourceName job (crs_Name x))
                       (resource_labels job run (crs_Name x))"
  obtain r1 s1 where e: "ensure_network E ?n (resource_labels job run (crs_Name spec)) s = (r1, s1)"
    by (cases "ensure_network E ?n (resource_labels job run (crs_Name spec)) s") auto
  have x1: "extends (?Q (spec # specs)) s s1"
    using ensure_network_step(1) [OF e] by (rule extends_weaken) auto
  have g1: "grows s s1" and rs1: "ss_resources s1 = ss_resources s"
    using ensure_network_step(2,5,6) [OF e] by (simp_all add: grows_def)
  show ?case
  proof (cases r1)
    case (Some err)
    then have "s' = s1" "r \<noteq> None" using Cons.prems e by (auto simp: Let_def)
    then show ?thesis using x1 g1 rs1 by auto
  next
    case None
    let ?s2 = "s1\<lparr>ss_resources := ss_resources s1 @ [service_resource job spec],
                  ss_resourceNames := add_name (crs_Name spec) (ss_resourceNames s1),
                  ss_networks := insert ?n (ss_networks s1)\<rparr>"
    have rec: "service_resources E job run False specs ?s2 = (r, s')"
      using Cons.prems e None by (simp add: Let_def service_resource_def)
    have ih: "extends (?Q specs) ?s2 s'" "grows ?s2 s'" "set (ss_resources ?s2) \<subseteq> set (ss_resources s')"
      "r = None \<longrightarrow> (\<forall>spec \<in> set specs.
            DockerNetworkResourceName job (crs_Name spec) \<in> ss_createdNetworks s'
            \<and> DockerNetworkResourceName job (crs_Name spec) \<in> ss_networks s'
            \<and> service_resource job spec \<in> set (ss_resources s'))"
      using Cons.IH [OF rec] by auto
    have ih1: "extends (?Q (spec # specs)) ?s2 s'"
      using ih(1) by (rule extends_weaken) auto
    have in1: "?n \<in> ss_createdNetworks ?s2" "?n \<in> ss_networks ?s2"
      "service_resource job spec \<in> set (ss_resources ?s2)"
      using ensure_network_step(4) [OF e] None by simp_all
    then have in2: "?n \<in> ss_createdNetworks s'" "?n \<in> ss_networks s'"
      "service_resource job spec \<in> set (ss_resources s')"
      using ih(2,3) by (auto simp: grows_def)
    have "extends (?Q (spec # specs)) s ?s2" using x1 by (rule extends_hist) simp
    then have "extends (?Q (spec # specs)) s s'" using ih1 by (rule extends_trans)
    moreover have "grows s s'" using g1 ih(2) by (auto simp: grows_def)
    moreover have "set (ss_resources s) \<subseteq> set (ss_resources s')"
      using ih(3) rs1 by auto
    ultimately show ?thesis using ih(4) in2 by auto
  qed
qed

lemma default_network_step:
  "default_network E job run s = (r, s') \<Longrightarrow>
     extends (\<lambda>e. e = NetworkInspect job \<or> e = NetworkCreate job (job_labels job run)) s s'
     \<and> grows s s' \<and> ss_resources s' = ss_resources s"
proof (cases "ss_networks s = {}")
  case False
  assume "default_network E job run s = (r, s')"
  then have "s' = s" using False by (simp add: default_network_def)
  then show ?thesis by (simp add: extends_refl grows_refl)
next
  case True
  assume a: "default_network E job run s = (r, s')"
  obtain r1 s1 where e: "ensure_network E job (job_labels job run) s = (r1, s1)"
    by (cases "ensure_network E job (job_labels job run) s") auto
  have x1: "extends (\<lambda>e. e = NetworkInspect job \<or> e = NetworkCreate job (job_labels job run)) s s1"
    using ensure_network_step(1) [OF e] .
  have g1: "grows s s1" and rs1: "ss_resources s1 = ss_resources s"
    using ensure_network_step(2,5,6) [OF e] by (simp_all add: grows_def)
  have "s' = s1 \<or> s' = s1\<lparr>ss_networks := insert job (ss_networks s1)\<rparr>"
    using a True e by (auto simp: default_network_def split: option.splits)
  then show ?thesis using x1 g1 rs1 by (auto simp: extends_def grows_def)
qed

lemma volume_mounts_step:
  "volume_mounts E job serviceName vms s = (r, s') \<Longrightarrow>
     ss_history s' = ss_history s \<and> same_nets s s'"
  by (induction vms arbitrary: s) (auto simp: same_nets_def split: if_splits)

lemma bind_protocols_step:
  "bind_protocols E serviceName b cp ts s = (r, s') \<Longrightarrow>
     ss_history s' = ss_history s \<and> same_nets s s'"
  by (induction ts arbitrary: s) (auto simp: same_nets_def Let_def split: option.splits)

lemma port_bindings_step:
  "port_bindings E serviceName bs s = (r, s') \<Longrightarrow>
     ss_history s' = ss_history s \<and> same_nets s s'"
proof (induction bs arbitrary: s)
  case Nil
  then show ?case by (simp add: same_nets_def)
next
  case (Cons b bs)
  show ?case
  proof (cases "bs_ContainerPort b")
    case None
    then show ?thesis using Cons by simp
  next
    case (Some cp)
    obtain r1 s1 where e: "bind_protocols E serviceName b cp [''tcp'', ''udp''] s = (r1, s1)"
      by (cases "bind_protocols E serviceName b cp [''tcp'', ''udp''] s") auto
    have b1: "ss_history s1 = ss_history s" "same_nets s s1"
      using bind_protocols_step [OF e] by auto
    show ?thesis
    proof (cases r1)
      case None
      then have "port_bindings E serviceName bs s1 = (r, s')"
        using Cons.prems Some e by simp
      then show ?thesis using Cons.IH b1 by (fastforce simp: same_nets_def)
    next
      case (Some err)
      then have "s' = s1" using Cons.prems \<open>bs_ContainerPort b = Some cp\<close> e by simp
      then show ?thesis using b1 by simp
    qed
  qed
qed

lemma replace_container_step:
  "replace_container E containerName s = (r, s') \<Longrightarrow>
     extends (\<lambda>e. e = ContainerInspect containerName \<or> e = ContainerStop containerName
                 \<or> e = ContainerRemove containerName) s s'
     \<and> same_nets s s'"
  by (auto simp: replace_container_def Let_def extends_def same_nets_def
      split: sum.splits option.splits)

lemma start_container_step:
  "start_container E containerName s = (r, s') \<Longrightarrow>
     ss_history s' = ss_history s @ [ContainerStart (ss_containerID s)] \<and> same_nets s s'"
  by (auto simp: start_container_def Let_def same_nets_def split: option.splits)

lemma create_and_start_step:
  assumes "create_and_start E job run serviceName service containerName s = (r, s')"
  shows "extends (\<lambda>e. e = ContainerCreate (container_spec job run serviceName service containerName s)
                 \<or> e = ContainerInspect containerName \<or> (\<exists>i. e = ContainerStart i)) s s'"
    and "same_nets s s'"
    and "\<exists>rest. ss_history s'
           = ss_history s @ ContainerCreate (container_spec job run serviceName service containerName s) # rest"
proof -
  let ?c = "ContainerCreate (container_spec job run serviceName service containerName s)"
  let ?h1 = "ss_history s @ [?c]"
  have "(\<exists>rest. ss_history s' = ss_history s @ ?c # rest
          \<and> list_all (\<lambda>e. e = ContainerInspect containerName \<or> (\<exists>i. e = ContainerStart i)) rest)
        \<and> same_nets s s'"
  proof (cases "created E ?h1")
    case (Inr cid)
    then have "start_container E containerName (s\<lparr>ss_containerID := cid, ss_history := ?h1\<rparr>) = (r, s')"
      using assms by (simp add: create_and_start_def Let_def)
    from start_container_step [OF this] show ?thesis by (simp add: same_nets_def)
  next
    case (Inl err)
    let ?h2 = "?h1 @ [ContainerInspect containerName]"
    show ?thesis
    proof (cases "inspected E ?h2")
      case (Inl ie)
      then have "s' = s\<lparr>ss_history := ?h2\<rparr>"
        using assms \<open>created E ?h1 = Inl err\<close> by (simp add: create_and_start_def Let_def)
      then show ?thesis by (simp add: same_nets_def)
    next
      case (Inr ic)
      then have "start_container E containerName
          (s\<lparr>ss_containerID := ic_ID ic, ss_history := ?h2\<rparr>) = (r, s')"
        using assms \<open>created E ?h1 = Inl err\<close> by (simp add: create_and_start_def Let_def)
      from start_container_step [OF this] show ?thesis by (simp add: same_nets_def)
    qed
  qed
  then obtain rest where rest: "ss_history s' = ss_history s @ ?c # rest"
      "list_all (\<lambda>e. e = ContainerInspect containerName \<or> (\<exists>i. e = ContainerStart i)) rest"
    and sn: "same_nets s s'" by blast
  show "same_nets s s'" by (rule sn)
  show "\<exists>rest. ss_history s' = ss_history s @ ?c # rest" using rest(1) by blast
  show "extends (\<lambda>e. e = ?c \<or> e = ContainerInspect containerName \<or> (\<exists>i. e = ContainerStart i)) s s'"
    unfolding extends_def using rest by (auto simp: list_all_iff)
qed

lemma run_to_completion_step:
  "run_to_completion E containerName s = (r, s') \<Longrightarrow>
     extends (\<lambda>e. (\<exists>i. e = ContainerLogs i) \<or> (\<exists>i. e = ContainerWait i)
                 \<or> (\<exists>i. e = DemuxDockerLogs i) \<or> (\<exists>i. e = ContainerRemove i)) s s'
     \<and> same_nets s s'"
  by (auto simp: run_to_completion_def Let_def extends_def same_nets_def
      split: option.splits wait_result.splits if_splits)

lemma publish_resources_step:
  "publish_resources E rs s = (r, s') \<Longrightarrow>
     extends (\<lambda>e. \<exists>x \<in> set rs. e = AgentCreateResource x) s s' \<and> same_nets s s'
     \<and> (r = None \<longrightarrow> (\<exists>rest. ss_history s' = ss_history s @ map AgentCreateResource rs))"
proof (induction rs arbitrary: s)
  case Nil
  then show ?case by (simp add: extends_refl same_nets_def)
next
  case (Cons x rs)
  let ?h1 = "ss_history s @ [AgentCreateResource x]"
  show ?case
  proof (cases "agent_answer E ?h1")
    case (Some err)
    then have "s' = s\<lparr>ss_history := ?h1\<rparr>" "r \<noteq> None"
      using Cons.prems by (auto simp: Let_def)
    then show ?thesis by (auto simp: extends_def same_nets_def)
  next
    case None
    then have rec: "publish_resources E rs (s\<lparr>ss_history := ?h1\<rparr>) = (r, s')"
      using Cons.prems by (simp add: Let_def)
    have ih: "extends (\<lambda>e. \<exists>x \<in> set rs. e = AgentCreateResource x) (s\<lparr>ss_history := ?h1\<rparr>) s'"
      "same_nets (s\<lparr>ss_history := ?h1\<rparr>) s'"
      "r = None \<longrightarrow> ss_history s' = ?h1 @ map AgentCreateResource rs"
      using Cons.IH [OF rec] by auto
    have "extends (\<lambda>e. \<exists>y \<in> set (x # rs). e = AgentCreateResource y) s s'"
      using ih(1) unfolding extends_def list_all_iff by auto
    then show ?thesis using ih(2,3) by (auto simp: same_nets_def)
  qed
qed

lemma publish_step:
  "publish E s = (r, s') \<Longrightarrow>
     extends (\<lambda>e. \<exists>x \<in> set (ss_resources s). e = AgentCreateResource x) s s' \<and> same_nets s s'
     \<and> (r = None \<and> comm_present E
          \<longrightarrow> ss_history s' = ss_history s @ map AgentCreateResource (ss_resources s))"
  using publish_resources_step [of E "ss_resources s" s r s']
  by (auto simp: publish_def extends_refl same_nets_def split: if_splits)

lemma run_phases_Cons_None:
  "run_phases (p # ps) s = (None, s'') \<Longrightarrow> \<exists>s'. p s = (None, s') \<and> run_phases ps s' = (None, s'')"
  by (cases "p s") (auto split: option.splits)

lemma run_phases_fails:
  "p \<in> set ps \<Longrightarrow> (\<And>s. fst (p s) \<noteq> None) \<Longrightarrow> fst (run_phases ps s) \<noteq> None"
proof (induction ps arbitrary: s)
  case Nil
  then show ?case by simp
next
  case (Cons q ps)
  obtain r1 s1 where q: "q s = (r1, s1)" by (cases "q s") auto
  show ?case
  proof (cases r1)
    case (Some err)
    then show ?thesis using q by simp
  next
    case None
    then have "q \<noteq> p" using Cons.prems(2) [of s] q by auto
    then have "p \<in> set ps" using Cons.prems(1) by simp
    then have "fst (run_phases ps s1) \<noteq> None" using Cons.IH Cons.prems(2) by blast
    then show ?thesis using q None by simp
  qed
qed

lemma run_phases_inv:
  assumes "\<And>p s r s'. p \<in> set ps \<Longrightarrow> I s \<Longrightarrow> p s = (r, s') \<Longrightarrow> extends Q s s' \<and> I s'"
    and "I s" and "run_phases ps s = (r, s')"
  shows "extends Q s s' \<and> I s'"
  using assms
proof (induction ps arbitrary: s)
  case Nil
  then show ?case by (simp add: extends_refl)
next
  case (Cons q ps)
  obtain r1 s1 where q: "q s = (r1, s1)" by (cases "q s") auto
  have st: "extends Q s s1" "I s1" using Cons.prems(1) [of q s r1 s1] Cons.prems(2) q by auto
  show ?case
  proof (cases r1)
    case (Some err)
    then have "s' = s1" using Cons.prems(3) q by simp
    then show ?thesis using st by simp
  next
    case None
    then have rec: "run_phases ps s1 = (r, s')" using Cons.prems(3) q by simp
    have step: "extends Q a b \<and> I b" if "p \<in> set ps" "I a" "p a = (x, b)" for p a x b
      using Cons.prems(1) [of p a x b] that by simp
    have "extends Q s1 s' \<and> I s'"
      by (rule Cons.IH [OF step st(2) rec])
    then show ?thesis using st(1) extends_trans by blast
  qed
qed

lemma platform_connections_fails:
  assumes "c \<in> set conns" and "GetPlatformData c = Some d" and "Unmarshal_platform E d = Inr n"
    and "n = [] \<or> (\<forall>hh. answer E (hh @ [NetworkInspect n]) \<noteq> None)"
  shows "fst (platform_connections E conns s) \<noteq> None"
  using assms(1)
proof (induction conns arbitrary: s)
  case Nil
  then show ?case by simp
next
  case (Cons x conns)
  show ?case
  proof (cases "x = c")
    case True
    show ?thesis
    proof (cases "n = []")
      case True
      then show ?thesis using \<open>x = c\<close> assms(2,3) by simp
    next
      case False
      then have "answer E (ss_history s @ [NetworkInspect n]) \<noteq> None" using assms(4) by blast
      then show ?thesis using \<open>x = c\<close> assms(2,3) False by (auto simp: Let_def)
    qed
  next
    case False
    then have ih: "fst (platform_connections E conns s') \<noteq> None" for s'
      using Cons by simp
    show ?thesis
      using ih by (auto simp: Let_def split: option.splits sum.splits)
  qed
qed

lemma platform_connections_inspected:
  "platform_connections E conns s = (None, s') \<Longrightarrow> n \<in> platform_names E conns \<Longrightarrow>
     \<exists>hp rest. ss_history s' = hp @ NetworkInspect n # rest \<and> answer E (hp @ [NetworkInspect n]) = None"
proof (induction conns arbitrary: s)
  case Nil
  then show ?case by (simp add: platform_names_def)
next
  case (Cons c conns)
  show ?case
  proof (cases "GetPlatformData c")
    case None
    then have "platform_connections E conns s = (None, s')" using Cons.prems(1) by simp
    moreover have "n \<in> platform_names E conns"
      using Cons.prems(2) None by (auto simp: platform_names_def)
    ultimately show ?thesis using Cons.IH by blast
  next
    case (Some d)
    then obtain m where m: "Unmarshal_platform E d = Inr m" "m \<noteq> []"
      and a: "answer E (ss_history s @ [NetworkInspect m]) = None"
      and rec: "platform_connections E conns
          (s\<lparr>ss_networks := insert m (ss_networks s), ss_history := ss_history s @ [NetworkInspect m]\<rparr>)
          = (None, s')"
      using Cons.prems(1) by (auto simp: Let_def split: sum.splits if_splits option.splits)
    show ?thesis
    proof (cases "n \<in> platform_names E conns")
      case True
      then show ?thesis using Cons.IH [OF rec] by blast
    next
      case False
      then have "n = m" using Cons.prems(2) Some m(1) by (auto simp: platform_names_def)
      obtain evs where "ss_history s' = (ss_history s @ [NetworkInspect m]) @ evs"
        using platform_connections_step [OF rec] by (auto simp: extends_def)
      then have "ss_history s' = ss_history s @ NetworkInspect n # evs" using \<open>n = m\<close> by simp
      then show ?thesis using a \<open>n = m\<close> by blast
    qed
  qed
qed

lemma service_resources_built:
  "service_resources E job run isRunner specs s = (r, s') \<Longrightarrow>
     set (ss_resources s') \<subseteq> set (ss_resources s)
       \<union> (\<lambda>x. if isRunner then runner_resource x else service_resource job x) ` set specs"
proof (induction specs arbitrary: s)
  case Nil
  then show ?case by simp
next
  case (Cons spec specs)
  show ?case
  proof (cases isRunner)
    case True
    then have "s' = s\<lparr>ss_resources := ss_resources s @ map runner_resource (spec # specs)\<rparr>"
      using service_resources_runner [of E job run "spec # specs" s r s'] Cons.prems by simp
    then show ?thesis using True by auto
  next
    case False
    obtain r1 s1 where e: "ensure_network E (DockerNetworkResourceName job (crs_Name spec))
        (resource_labels job run (crs_Name spec)) s = (r1, s1)"
      by (cases "ensure_network E (DockerNetworkResourceName job (crs_Name spec))
        (resource_labels job run (crs_Name spec)) s") auto
    have rs1: "ss_resources s1 = ss_resources s" using ensure_network_step(6) [OF e] .
    show ?thesis
    proof (cases r1)
      case (Some err)
      then have "s' = s1" using Cons.prems e False by (auto simp: Let_def)
      then show ?thesis using rs1 by auto
    next
      case None
      let ?s2 = "s1\<lparr>ss_resources := ss_resources s1 @ [service_resource job spec],
                  ss_resourceNames := add_name (crs_Name spec) (ss_resourceNames s1),
                  ss_networks := insert (DockerNetworkResourceName job (crs_Name spec)) (ss_networks s1)\<rparr>"
      have rec: "service_resources E job run isRunner specs ?s2 = (r, s')"
        using Cons.prems e None False by (simp add: Let_def service_resource_def)
      show ?thesis using Cons.IH [OF rec] rs1 False by auto
    qed
  qed
qed

lemma same_nets_resources: "same_nets a b \<Longrightarrow> ss_resources b = ss_resources a"
  by (simp add: same_nets_def)

lemma same_nets_grows: "same_nets a b \<Longrightarrow> grows a b"
  by (simp add: same_nets_def grows_def)

lemma setup_phase_event:
  assumes p: "p \<in> set (setup_phases E job run serviceName service)"
    and I: "set (ss_resources a) \<subseteq> built_resource job service ` set (opt_list (svc_Resources service))"
    and pa: "p a = (x, b)"
  shows "extends (service_event E job run serviceName service) a b
    \<and> set (ss_resources b) \<subseteq> built_resource job service ` set (opt_list (svc_Resources service))"
proof -
  let ?Q = "service_event E job run serviceName service"
  let ?cn = "DockerServiceName job serviceName"
  consider (groups) "p = network_groups E job run (opt_list (svc_NetworkGroups service))"
    | (conns) "p = platform_connections E (opt_list (svc_Connections service))"
    | (res) "p = service_resources E job run (IsRunnerRole service) (opt_list (svc_Resources service))"
    | (dflt) "p = default_network E job run"
    | (mounts) "p = volume_mounts E job serviceName (opt_list (svc_Volumes service))"
    | (ports) "p = port_bindings E serviceName (opt_list (svc_Bindings service))"
    | (repl) "p = replace_container E ?cn"
    | (create) "p = create_and_start E job run serviceName service ?cn"
    | (runner) "p = (if IsRunnerRole service then run_to_completion E ?cn else (\<lambda>s. (None, s)))"
    | (pub) "p = publish E"
    using p unfolding setup_phases_def by auto
  then show ?thesis
  proof cases
    case groups
    from network_groups_step [OF pa [unfolded groups]]
    have "extends (\<lambda>e. \<exists>g \<in> set (opt_list (svc_NetworkGroups service)).
          e = NetworkInspect (DockerNetworkName job g)
          \<or> e = NetworkCreate (DockerNetworkName job g) (group_labels job run g)) a b"
      and rs: "ss_resources b = ss_resources a" by auto
    from this(1) have "extends ?Q a b" by (rule extends_weaken) (auto simp: service_event_def)
    then show ?thesis using rs I by simp
  next
    case conns
    from platform_connections_step [OF pa [unfolded conns]]
    have "extends (\<lambda>e. \<exists>n \<in> platform_names E (opt_list (svc_Connections service)).
          n \<noteq> [] \<and> e = NetworkInspect n) a b"
      and rs: "ss_resources b = ss_resources a" by auto
    from this(1) have "extends ?Q a b" by (rule extends_weaken) (auto simp: service_event_def)
    then show ?thesis using rs I by simp
  next
    case res
    have sub: "set (ss_resources b) \<subseteq> built_resource job service ` set (opt_list (svc_Resources service))"
    proof -
      have eq: "(\<lambda>x. if IsRunnerRole service then runner_resource x else service_resource job x)
          = built_resource job service"
        by (auto simp: built_resource_def)
      show ?thesis
        using service_resources_built [OF pa [unfolded res]] I unfolding eq by blast
    qed
    show ?thesis
    proof (cases "IsRunnerRole service")
      case True
      then have "ss_history b = ss_history a"
        using service_resources_runner [of E job run "opt_list (svc_Resources service)" a x b]
          pa res by simp
      then show ?thesis using sub by (simp add: extends_same)
    next
      case False
      from service_resources_step [of E job run "opt_list (svc_Resources service)" a x b]
      have "extends (\<lambda>e. \<exists>x \<in> set (opt_list (svc_Resources service)).
            e = NetworkInspect (DockerNetworkResourceName job (crs_Name x))
            \<or> e = NetworkCreate (DockerNetworkResourceName job (crs_Name x))
                  (resource_labels job run (crs_Name x))) a b"
        using pa res False by simp
      then have "extends ?Q a b"
        by (rule extends_weaken) (use False in \<open>auto simp: service_event_def\<close>)
      then show ?thesis using sub by simp
    qed
  next
    case dflt
    from default_network_step [OF pa [unfolded dflt]]
    have "extends (\<lambda>e. e = NetworkInspect job \<or> e = NetworkCreate job (job_labels job run)) a b"
      and rs: "ss_resources b = ss_resources a" by auto
    from this(1) have "extends ?Q a b" by (rule extends_weaken) (auto simp: service_event_def)
    then show ?thesis using rs I by simp
  next
    case mounts
    from volume_mounts_step [OF pa [unfolded mounts]]
    show ?thesis using I by (simp add: extends_same same_nets_def)
  next
    case ports
    from port_bindings_step [OF pa [unfolded ports]]
    show ?thesis using I by (simp add: extends_same same_nets_def)
  next
    case repl
    from replace_container_step [OF pa [unfolded repl]]
    have "extends (\<lambda>e. e = ContainerInspect ?cn \<or> e = ContainerStop ?cn \<or> e = ContainerRemove ?cn) a b"
      and rs: "ss_resources b = ss_resources a" by (auto simp: same_nets_def)
    from this(1) have "extends ?Q a b" by (rule extends_weaken) (auto simp: service_event_def)
    then show ?thesis using rs I by simp
  next
    case create
    have "extends (\<lambda>e. e = ContainerCreate (container_spec job run serviceName service ?cn a)
          \<or> e = ContainerInspect ?cn \<or> (\<exists>i. e = ContainerStart i)) a b"
      and rs: "ss_resources b = ss_resources a"
      using create_and_start_step(1,2) [OF pa [unfolded create]] by (auto simp: same_nets_def)
    from this(1) have "extends ?Q a b" by (rule extends_weaken) (auto simp: service_event_def)
    then show ?thesis using rs I by simp
  next
    case runner
    show ?thesis
    proof (cases "IsRunnerRole service")
      case True
      from run_to_completion_step [of E ?cn a x b]
      have "extends (\<lambda>e. (\<exists>i. e = ContainerLogs i) \<or> (\<exists>i. e = ContainerWait i)
            \<or> (\<exists>i. e = DemuxDockerLogs i) \<or> (\<exists>i. e = ContainerRemove i)) a b"
        and rs: "ss_resources b = ss_resources a"
        using pa runner True by (auto simp: same_nets_def)
      from this(1) have "extends ?Q a b"
        by (rule extends_weaken) (use True in \<open>auto simp: service_event_def\<close>)
      then show ?thesis using rs I by simp
    next
      case False
      then have "b = a" using pa runner by simp
      then show ?thesis using I by (simp add: extends_refl)
    qed
  next
    case pub
    show ?thesis
    proof (cases "comm_present E")
      case True
      from publish_step [OF pa [unfolded pub]]
      have "extends (\<lambda>e. \<exists>x \<in> set (ss_resources a). e = AgentCreateResource x) a b"
        and rs: "ss_resources b = ss_resources a" by (auto simp: same_nets_def)
      from this(1) have "extends ?Q a b"
        by (rule extends_weaken) (use True I in \<open>auto simp: service_event_def\<close>)
      then show ?thesis using rs I by simp
    next
      case False
      then have "b = a" using pa pub by (simp add: publish_def)
      then show ?thesis using I by (simp add: extends_refl)
    qed
  qed
qed

lemma SetupService_events:
  assumes "SetupService E job run cn h serviceName service = (r, cn', h')"
  shows "\<exists>evs. h' = h @ evs \<and> list_all (service_event E job run serviceName service) evs"
proof -
  obtain s' where run: "run_phases (setup_phases E job run serviceName service) (initial_state cn h) = (r, s')"
    and h': "h' = ss_history s'"
    using assms by (auto simp: SetupService_def split: prod.splits)
  let ?Q = "service_event E job run serviceName service"
  let ?I = "\<lambda>s. set (ss_resources s)
      \<subseteq> built_resource job service ` set (opt_list (svc_Resources service))"
  have "extends ?Q (initial_state cn h) s' \<and> ?I s'"
  proof (rule run_phases_inv [where I = ?I and Q = ?Q
        and ps = "setup_phases E job run serviceName service"])
    show "?I (initial_state cn h)" by (simp add: initial_state_def)
    show "run_phases (setup_phases E job run serviceName service) (initial_state cn h) = (r, s')"
      by (rule run)
  next
    fix p a x b
    assume "p \<in> set (setup_phases E job run serviceName service)" "?I a" "p a = (x, b)"
    then show "extends ?Q a b \<and> ?I b" by (rule setup_phase_event)
  qed
  then show ?thesis using h' by (simp add: extends_def initial_state_def)
qed

end
